theory Spec2Isabelle
  imports Complex_Main "HOL-Library.Char_ord" "HOL-Library.List_Lexorder" "HOL-Library.AList"
begin

section \<open>Python strings\<close>

text \<open>
  The program is \<^verbatim>\<open>backend/main.py\<close>. A Python \<^verbatim>\<open>str\<close> is modelled as a
  \<^typ>\<open>string\<close>, a list of 8-bit characters; the lines of the external executable are
  taken to be ASCII, so of the characters that \<^verbatim>\<open>str.isspace\<close>, \<^verbatim>\<open>\s\<close> and
  \<^verbatim>\<open>\d\<close> accept only the ASCII ones appear here.
\<close>

definition py_isspace :: "char \<Rightarrow> bool" where
  "py_isspace c = (c \<in> set [CHR 0x09, CHR 0x0A, CHR 0x0B, CHR 0x0C, CHR 0x0D,
                              CHR 0x1C, CHR 0x1D, CHR 0x1E, CHR 0x1F, CHR 0x20])"

definition py_isdigit :: "char \<Rightarrow> bool" where
  "py_isdigit c = (c \<in> set ''0123456789'')"

text \<open>\<^verbatim>\<open>s.strip()\<close>, \<^verbatim>\<open>s.strip(cs)\<close>, \<^verbatim>\<open>s.lstrip(cs)\<close>, \<^verbatim>\<open>s.rstrip(cs)\<close>.\<close>

definition py_lstrip_chars :: "string \<Rightarrow> string \<Rightarrow> string" where
  "py_lstrip_chars cs s = dropWhile (\<lambda>c. c \<in> set cs) s"

definition py_rstrip_chars :: "string \<Rightarrow> string \<Rightarrow> string" where
  "py_rstrip_chars cs s = rev (dropWhile (\<lambda>c. c \<in> set cs) (rev s))"

definition py_strip_chars :: "string \<Rightarrow> string \<Rightarrow> string" where
  "py_strip_chars cs s = py_rstrip_chars cs (py_lstrip_chars cs s)"

definition py_strip :: "string \<Rightarrow> string" where
  "py_strip s = rev (dropWhile py_isspace (rev (dropWhile py_isspace s)))"

text \<open>\<^verbatim>\<open>s.startswith(p)\<close> and \<^verbatim>\<open>sub in s\<close>.\<close>

definition startswith :: "string \<Rightarrow> string \<Rightarrow> bool" where
  "startswith s p = (take (length p) s = p)"

fun py_in :: "string \<Rightarrow> string \<Rightarrow> bool" where
  "py_in sub [] = (sub = [])"
| "py_in sub (c # cs) = (startswith (c # cs) sub \<or> py_in sub cs)"

text \<open>
  \<^verbatim>\<open>s.split(sep, 1)\<close>: the text before and after the first occurrence of a non-empty
  \<^verbatim>\<open>sep\<close>, or the one-element list \<^verbatim>\<open>[s]\<close> when \<^verbatim>\<open>sep\<close> does not occur.
\<close>

fun py_split1 :: "string \<Rightarrow> string \<Rightarrow> string list" where
  "py_split1 sep [] = [[]]"
| "py_split1 sep (c # cs) =
     (if startswith (c # cs) sep then [[], drop (length sep) (c # cs)]
      else (case py_split1 sep cs of
              [a, b] \<Rightarrow> [c # a, b]
            | _ \<Rightarrow> [c # cs]))"

text \<open>\<^verbatim>\<open>s.split()\<close>: the maximal runs of characters that are not whitespace.\<close>

fun py_split_ws :: "string \<Rightarrow> string \<Rightarrow> string list" where
  "py_split_ws cur [] = (if cur = [] then [] else [cur])"
| "py_split_ws cur (c # cs) =
     (if py_isspace c then (if cur = [] then py_split_ws [] cs else cur # py_split_ws [] cs)
      else py_split_ws (cur @ [c]) cs)"

definition py_split :: "string \<Rightarrow> string list" where
  "py_split s = py_split_ws [] s"

text \<open>\<^verbatim>\<open>os.path.basename\<close> of \<^verbatim>\<open>posixpath\<close>: what follows the last slash.\<close>

definition basename :: "string \<Rightarrow> string" where
  "basename p = rev (takeWhile (\<lambda>c. c \<noteq> CHR ''/'') (rev p))"

text \<open>\<^verbatim>\<open>s.lower()\<close> on ASCII letters.\<close>

definition ascii_lower :: "char \<Rightarrow> char" where
  "ascii_lower c =
     (case map_of (zip ''ABCDEFGHIJKLMNOPQRSTUVWXYZ'' ''abcdefghijklmnopqrstuvwxyz'') c of
        Some d \<Rightarrow> d
      | None \<Rightarrow> c)"

definition py_lower :: "string \<Rightarrow> string" where
  "py_lower s = map ascii_lower s"

section \<open>Python floats\<close>

text \<open>
  A Python \<^verbatim>\<open>float\<close> is a finite number, an infinity or a NaN. The finite ones are
  modelled by exact rationals: rounding to the nearest double, and overflow of a finite
  result to an infinity, are not part of the model. Comparison with a NaN is false, and
  the built-in \<^verbatim>\<open>min(a, b)\<close> and \<^verbatim>\<open>max(a, b)\<close> keep their first argument unless
  the second is strictly smaller (greater).
\<close>

datatype pyfloat = Finite rat | PosInf | NegInf | NaN

fun py_lt :: "pyfloat \<Rightarrow> pyfloat \<Rightarrow> bool" where
  "py_lt NaN _ = False"
| "py_lt _ NaN = False"
| "py_lt (Finite a) (Finite b) = (a < b)"
| "py_lt (Finite a) PosInf = True"
| "py_lt (Finite a) NegInf = False"
| "py_lt PosInf _ = False"
| "py_lt NegInf (Finite b) = True"
| "py_lt NegInf PosInf = True"
| "py_lt NegInf NegInf = False"

definition py_min :: "pyfloat \<Rightarrow> pyfloat \<Rightarrow> pyfloat" where
  "py_min a b = (if py_lt b a then b else a)"

definition py_max :: "pyfloat \<Rightarrow> pyfloat \<Rightarrow> pyfloat" where
  "py_max a b = (if py_lt a b then b else a)"

text \<open>Division and multiplication of a float by a positive finite number.\<close>

fun py_div_pos :: "pyfloat \<Rightarrow> rat \<Rightarrow> pyfloat" where
  "py_div_pos (Finite r) d = Finite (r / d)"
| "py_div_pos x d = x"

fun py_mul_pos :: "pyfloat \<Rightarrow> rat \<Rightarrow> pyfloat" where
  "py_mul_pos (Finite r) m = Finite (r * m)"
| "py_mul_pos x m = x"

text \<open>
  \<^verbatim>\<open>float(s)\<close> on a string, \<^const>\<open>None\<close> for \<^verbatim>\<open>ValueError\<close>. The text is stripped
  of whitespace; an underscore may stand between two digits; then follow an optional
  sign and either \<^verbatim>\<open>inf\<close>, \<^verbatim>\<open>infinity\<close> or \<^verbatim>\<open>nan\<close> in any case, or a decimal
  number with at least one digit and an optional exponent.
\<close>

definition digits_val :: "string \<Rightarrow> nat" where
  "digits_val ds = foldl (\<lambda>a c. 10 * a + (of_char c - 48)) 0 ds"

fun strip_underscores :: "char \<Rightarrow> string \<Rightarrow> string option" where
  "strip_underscores prev [] = (if prev = CHR ''_'' then None else Some [])"
| "strip_underscores prev (c # cs) =
     (if c = CHR ''_'' then
        (if py_isdigit prev then strip_underscores c cs else None)
      else if prev = CHR ''_'' \<and> \<not> py_isdigit c then None
      else map_option ((#) c) (strip_underscores c cs))"

definition scale10 :: "nat \<Rightarrow> int \<Rightarrow> rat" where
  "scale10 m k = (if 0 \<le> k then of_nat m * 10 ^ nat k else of_nat m / 10 ^ nat (- k))"

definition py_float_exponent :: "string \<Rightarrow> int option" where
  "py_float_exponent r =
     (case r of
        [] \<Rightarrow> Some 0
      | e # r1 \<Rightarrow>
          if e = CHR ''e'' \<or> e = CHR ''E'' then
            (let neg = (take 1 r1 = ''-'');
                 ds = (if take 1 r1 = ''-'' \<or> take 1 r1 = ''+'' then drop 1 r1 else r1)
             in if ds \<noteq> [] \<and> list_all py_isdigit ds
                then Some (if neg then - int (digits_val ds) else int (digits_val ds))
                else None)
          else None)"

definition py_float_number :: "string \<Rightarrow> rat option" where
  "py_float_number body =
     (let ip = takeWhile py_isdigit body;
          r1 = dropWhile py_isdigit body;
          fp = (case r1 of c # r \<Rightarrow> if c = CHR ''.'' then takeWhile py_isdigit r else []
                | [] \<Rightarrow> []);
          r2 = (case r1 of c # r \<Rightarrow> if c = CHR ''.'' then dropWhile py_isdigit r else r1
                | [] \<Rightarrow> [])
      in if ip = [] \<and> fp = [] then None
         else map_option (\<lambda>e. scale10 (digits_val (ip @ fp)) (e - int (length fp)))
                (py_float_exponent r2))"

definition py_float :: "string \<Rightarrow> pyfloat option" where
  "py_float s =
     (case strip_underscores (CHR 0x00) (py_strip s) of
        None \<Rightarrow> None
      | Some s2 \<Rightarrow>
          (let neg = (take 1 s2 = ''-'');
               body = (if take 1 s2 = ''-'' \<or> take 1 s2 = ''+'' then drop 1 s2 else s2)
           in if py_lower body = ''inf'' \<or> py_lower body = ''infinity''
              then Some (if neg then NegInf else PosInf)
              else if py_lower body = ''nan'' then Some NaN
              else map_option (\<lambda>r. Finite (if neg then - r else r)) (py_float_number body)))"

section \<open>The two regular expressions of the media worker\<close>

text \<open>
  \<^verbatim>\<open>re.search\<close> tries the pattern at every position from the left and returns the
  first match. A greedy repetition of a character class is matched by \<open>greedy\<close>, which
  takes the longest run first and gives characters back one by one while the rest of the
  pattern (the continuation \<open>k\<close>, applied to the matched text and the remaining input)
  fails.
\<close>

fun re_search :: "(string \<Rightarrow> 'a option) \<Rightarrow> string \<Rightarrow> 'a option" where
  "re_search m [] = m []"
| "re_search m (c # cs) = (case m (c # cs) of Some r \<Rightarrow> Some r | None \<Rightarrow> re_search m cs)"

fun greedy :: "(char \<Rightarrow> bool) \<Rightarrow> (string \<Rightarrow> string \<Rightarrow> 'a option) \<Rightarrow> string \<Rightarrow> string \<Rightarrow> 'a option" where
  "greedy P k acc [] = k acc []"
| "greedy P k acc (c # cs) =
     (case (if P c then greedy P k (acc @ [c]) cs else None) of
        Some r \<Rightarrow> Some r
      | None \<Rightarrow> k acc (c # cs))"

text \<open>\<^verbatim>\<open>speed_re = re.compile(r"([0-9.]+)\s*(KiB|MiB|GiB)/s")\<close>\<close>

definition speed_unit :: "string \<Rightarrow> string \<Rightarrow> (string \<times> string) option" where
  "speed_unit val r =
     (if startswith r ''KiB/s'' then Some (val, ''KiB'')
      else if startswith r ''MiB/s'' then Some (val, ''MiB'')
      else if startswith r ''GiB/s'' then Some (val, ''GiB'')
      else None)"

definition speed_re_match :: "string \<Rightarrow> (string \<times> string) option" where
  "speed_re_match s =
     greedy (\<lambda>c. py_isdigit c \<or> c = CHR ''.'')
       (\<lambda>val r. if val = [] then None
                 else greedy py_isspace (\<lambda>ws r'. speed_unit val r') [] r) [] s"

definition speed_re_search :: "string \<Rightarrow> (string \<times> string) option" where
  "speed_re_search line = re_search speed_re_match line"

text \<open>\<^verbatim>\<open>eta_re = re.compile(r"ETA\s*(\d+):(\d+)")\<close>\<close>

definition eta_seconds :: "string \<Rightarrow> string \<Rightarrow> (string \<times> string) option" where
  "eta_seconds mm r =
     (case r of
        c # r' \<Rightarrow>
          if c = CHR '':'' then
            greedy py_isdigit (\<lambda>ss rest. if ss = [] then None else Some (mm, ss)) [] r'
          else None
      | [] \<Rightarrow> None)"

definition eta_re_match :: "string \<Rightarrow> (string \<times> string) option" where
  "eta_re_match s =
     (if startswith s ''ETA'' then
        greedy py_isspace
          (\<lambda>ws r. greedy py_isdigit (\<lambda>mm r'. if mm = [] then None else eta_seconds mm r') [] r)
          [] (drop 3 s)
      else None)"

definition eta_re_search :: "string \<Rightarrow> (string \<times> string) option" where
  "eta_re_search line = re_search eta_re_match line"

section \<open>The data model\<close>

text \<open>
  \<^verbatim>\<open>class Task\<close>: the fields of one download job. The lock and the thread handle are
  left out; the model works at the granularity of the blocks that the source runs under
  \<^verbatim>\<open>task.lock\<close>. The field \<^verbatim>\<open>id\<close> is named \<open>tid\<close>.
\<close>

record task =
  tid :: string
  url :: string
  category :: string
  fmt :: string
  quality :: string
  status :: string
  progress :: pyfloat
  title :: "string option"
  filename :: "string option"
  filepath :: "string option"
  message :: "string option"
  control :: string
  speed :: "pyfloat option"
  eta :: "int option"
  downloaded_at :: "string option"
  download_url :: "string option"

text \<open>\<^verbatim>\<open>class StartRequest\<close> and \<^verbatim>\<open>class TaskStatus\<close> (fields prefixed).\<close>

record start_request =
  req_url :: string
  req_category :: string
  req_fmt :: string
  req_quality :: string

record task_status =
  ts_id :: string
  ts_url :: string
  ts_title :: "string option"
  ts_filename :: "string option"
  ts_status :: string
  ts_progress :: pyfloat
  ts_fmt :: string
  ts_quality :: string
  ts_filepath :: "string option"
  ts_message :: "string option"
  ts_speed :: "pyfloat option"
  ts_eta :: "int option"
  ts_downloaded_at :: "string option"
  ts_download_url :: "string option"

text \<open>\<^verbatim>\<open>Task.__init__\<close> and \<^verbatim>\<open>Task.to_status\<close>.\<close>

definition Task_init :: "string \<Rightarrow> start_request \<Rightarrow> task" where
  "Task_init i req =
     \<lparr>tid = i, url = req_url req, category = req_category req, fmt = req_fmt req,
      quality = req_quality req, status = ''pending'', progress = Finite 0, title = None,
      filename = None, filepath = None, message = None, control = '''', speed = None,
      eta = None, downloaded_at = None, download_url = None\<rparr>"

definition to_status :: "task \<Rightarrow> task_status" where
  "to_status t =
     \<lparr>ts_id = tid t, ts_url = url t, ts_title = title t, ts_filename = filename t,
      ts_status = status t, ts_progress = progress t, ts_fmt = fmt t,
      ts_quality = quality t, ts_filepath = filepath t, ts_message = message t,
      ts_speed = speed t, ts_eta = eta t, ts_downloaded_at = downloaded_at t,
      ts_download_url = download_url t\<rparr>"

text \<open>The truth value of an \<^verbatim>\<open>Optional[str]\<close>: neither \<^verbatim>\<open>None\<close> nor empty.\<close>

definition py_truthy :: "string option \<Rightarrow> bool" where
  "py_truthy x = (case x of None \<Rightarrow> False | Some s \<Rightarrow> s \<noteq> [])"

section \<open>The media worker \<^verbatim>\<open>run_ytdlp\<close>\<close>

text \<open>
  The command line handed to the external executable does not enter the task's state and
  is not modelled; the child process is an input of the model: either starting it raises
  (with a message), or it yields the lines of its output.

  The blocks of the worker follow in the order of the source. \<open>set_downloading\<close> is
  the first block of both workers.
\<close>

definition set_downloading :: "task \<Rightarrow> task" where
  "set_downloading t = t\<lparr>status := ''downloading'', progress := Finite 0\<rparr>"

text \<open>\<^verbatim>\<open>max(0.0, min(1.0, x))\<close>\<close>

definition clamp01 :: "pyfloat \<Rightarrow> pyfloat" where
  "clamp01 x = py_max (Finite 0) (py_min (Finite 1) x)"

definition speed_mult :: "string \<Rightarrow> rat" where
  "speed_mult unit =
     (if unit = ''KiB'' then 1024 else if unit = ''MiB'' then 1024 ^ 2 else 1024 ^ 3)"

definition parse_eta :: "string \<Rightarrow> task \<Rightarrow> task" where
  "parse_eta line t =
     (case eta_re_search line of
        Some (mm, ss) \<Rightarrow> t\<lparr>eta := Some (int (digits_val mm) * 60 + int (digits_val ss))\<rparr>
      | None \<Rightarrow> t)"

text \<open>
  A \<^verbatim>\<open>ValueError\<close> of \<^verbatim>\<open>float(val)\<close> leaves the \<^verbatim>\<open>try\<close> block: the ETA of that
  line is then not read.
\<close>

definition parse_speed :: "string \<Rightarrow> task \<Rightarrow> task" where
  "parse_speed line t =
     (case speed_re_search line of
        Some (val, unit) \<Rightarrow>
          (case py_float val of
             None \<Rightarrow> t
           | Some v \<Rightarrow> parse_eta line (t\<lparr>speed := Some (py_mul_pos v (speed_mult unit))\<rparr>))
      | None \<Rightarrow> parse_eta line t)"

text \<open>
  The \<^verbatim>\<open>try\<close> block of a progress line. \<^verbatim>\<open>pct_part\<close> is the last whitespace-separated
  word before the first \<^verbatim>\<open>%\<close>, and \<open>parse_pct\<close> is \<^verbatim>\<open>float(pct_part)\<close>, with
  \<^const>\<open>None\<close> for an \<^verbatim>\<open>IndexError\<close> or \<^verbatim>\<open>ValueError\<close>: the exception is swallowed and
  leaves the task as it is.
\<close>

definition parse_pct :: "string \<Rightarrow> pyfloat option" where
  "parse_pct line =
     (case py_split1 ''%'' line of
        [] \<Rightarrow> None
      | front # _ \<Rightarrow>
          (case py_split front of
             [] \<Rightarrow> None
           | w # ws \<Rightarrow> py_float (last (w # ws))))"

definition parse_progress :: "string \<Rightarrow> task \<Rightarrow> task" where
  "parse_progress line t =
     (case parse_pct line of
        None \<Rightarrow> t
      | Some pct \<Rightarrow> parse_speed line (t\<lparr>progress := clamp01 (py_div_pos pct 100)\<rparr>))"

definition set_filename :: "string \<Rightarrow> task \<Rightarrow> task" where
  "set_filename fname t =
     t\<lparr>filename := Some (basename fname),
       download_url := Some (''/downloads/'' @ basename fname)\<rparr>"

definition merging_marker :: string where
  "merging_marker = ''Merging formats into '' @ [CHR 0x22]"

text \<open>
  One iteration of the loop up to the control check. The element \<^verbatim>\<open>[1]\<close> of a split is
  read only when the separator occurs in the line, so it exists
  (\<open>py_split1_length\<close> below).
\<close>

definition process_line :: "string \<Rightarrow> task \<Rightarrow> task" where
  "process_line raw_line t =
     (let line = py_strip raw_line;
          t1 = (if startswith line ''[download]'' \<and> py_in ''%'' line
                then parse_progress line t else t);
          t2 = (if py_in ''Destination:'' line
                then set_filename
                       (py_strip_chars [CHR 0x22]
                          (py_strip (py_split1 ''Destination:'' line ! 1))) t1
                else t1)
      in if py_in merging_marker line
         then set_filename (py_rstrip_chars [CHR 0x22] (py_split1 merging_marker line ! 1)) t2
         else t2)"

text \<open>
  The control check that ends an iteration: \<open>Inl\<close> when the worker returns (paused or
  canceled), \<open>Inr\<close> when it goes on.
\<close>

definition control_check :: "task \<Rightarrow> task + task" where
  "control_check t =
     (if control t = ''pause'' then Inl (t\<lparr>status := ''paused''\<rparr>)
      else if control t = ''cancel'' then Inl (t\<lparr>status := ''canceled''\<rparr>)
      else Inr t)"

fun ytdlp_loop :: "string list \<Rightarrow> task \<Rightarrow> task + task" where
  "ytdlp_loop [] t = Inr t"
| "ytdlp_loop (l # ls) t =
     (case control_check (process_line l t) of
        Inl t' \<Rightarrow> Inl t'
      | Inr t' \<Rightarrow> ytdlp_loop ls t')"

text \<open>
  After the stream is exhausted: the fallback search for a file named after the task
  id (\<open>found\<close> is what \<^verbatim>\<open>glob.glob\<close> returned), and the final block.
  \<^verbatim>\<open>datetime.now()\<close> is read twice (\<open>n1\<close>, \<open>n2\<close>).
\<close>

definition ytdlp_fallback :: "string list \<Rightarrow> task \<Rightarrow> task" where
  "ytdlp_fallback found t =
     (if \<not> py_truthy (filename t) then
        (case sort found of
           [] \<Rightarrow> t
         | m # _ \<Rightarrow> t\<lparr>filename := Some (basename m),
                       download_url := Some (''/downloads/'' @ basename m)\<rparr>)
      else t)"

definition not_found_message :: string where
  "not_found_message = ''Download finished but file not found''"

definition ytdlp_final :: "string \<Rightarrow> string \<Rightarrow> task \<Rightarrow> task" where
  "ytdlp_final n1 n2 t =
     (if status t \<noteq> ''paused'' \<and> status t \<noteq> ''canceled'' then
        (let t1 = t\<lparr>progress := Finite 1, status := ''completed'', downloaded_at := Some n1\<rparr>;
             t2 = (case filename t1 of
                     Some f \<Rightarrow>
                       if f \<noteq> [] then t1\<lparr>download_url := Some (''/downloads/'' @ f)\<rparr> else t1
                   | None \<Rightarrow> t1)
         in if status t2 \<noteq> ''paused'' \<and> status t2 \<noteq> ''canceled'' then
              (case filename t2 of
                 Some f \<Rightarrow>
                   if f \<noteq> [] then
                     t2\<lparr>progress := Finite 1, status := ''completed'',
                        downloaded_at := Some n2,
                        download_url := Some (''/downloads/'' @ f)\<rparr>
                   else t2\<lparr>status := ''error'', message := Some not_found_message\<rparr>
               | None \<Rightarrow> t2\<lparr>status := ''error'', message := Some not_found_message\<rparr>)
            else t2)
      else t)"

text \<open>The handler \<^verbatim>\<open>except Exception as e\<close> of both workers.\<close>

definition worker_error :: "string \<Rightarrow> task \<Rightarrow> task" where
  "worker_error msg t = t\<lparr>status := ''error'', message := Some msg\<rparr>"

record ytdlp_env =
  popen :: "string + string list"
  glob_result :: "string list"
  now1 :: string
  now2 :: string

definition run_ytdlp :: "ytdlp_env \<Rightarrow> task \<Rightarrow> task" where
  "run_ytdlp env t =
     (case popen env of
        Inl msg \<Rightarrow> worker_error msg (set_downloading t)
      | Inr lines \<Rightarrow>
          (case ytdlp_loop lines (set_downloading t) of
             Inl t' \<Rightarrow> t'
           | Inr t' \<Rightarrow>
               ytdlp_final (now1 env) (now2 env) (ytdlp_fallback (glob_result env) t')))"

section \<open>The image worker \<^verbatim>\<open>run_image\<close>\<close>

text \<open>
  The HTTP transfer is an input of the model: \<open>img_request\<close> is the message of an
  exception raised before the loop (by the request, by \<^verbatim>\<open>raise_for_status\<close>, by reading
  the \<^verbatim>\<open>content-length\<close> header or by opening the file), or else the value of
  \<^verbatim>\<open>total\<close>; \<open>img_chunks\<close> gives for every chunk its length and the seconds since
  \<^verbatim>\<open>start\<close> at which it was written; \<open>img_stream_error\<close> is an exception raised by
  the stream after these chunks.
\<close>

record image_env =
  img_request :: "string + int"
  img_chunks :: "(nat \<times> rat) list"
  img_stream_error :: "string option"
  img_now :: string

text \<open>\<^verbatim>\<open>int(x)\<close> of a float: truncation towards zero.\<close>

definition py_int_of_float :: "rat \<Rightarrow> int" where
  "py_int_of_float x = (if 0 \<le> x then \<lfloor>x\<rfloor> else \<lceil>x\<rceil>)"

text \<open>The block that is run for a written chunk when \<^verbatim>\<open>total\<close> is not zero.\<close>

definition image_progress :: "int \<Rightarrow> int \<Rightarrow> rat \<Rightarrow> task \<Rightarrow> task" where
  "image_progress total_bytes downloaded dt t =
     (let elapsed = (if 1 < dt then dt else 1);
          sp = of_int downloaded / elapsed
      in t\<lparr>progress := clamp01 (Finite (of_int downloaded / of_int total_bytes)),
           speed := Some (Finite sp),
           eta := (if sp \<noteq> 0 then Some (py_int_of_float (of_int (total_bytes - downloaded) / sp))
                   else None)\<rparr>)"

fun image_loop :: "int \<Rightarrow> (nat \<times> rat) list \<Rightarrow> int \<Rightarrow> task \<Rightarrow> task + task" where
  "image_loop total_bytes [] downloaded t = Inr t"
| "image_loop total_bytes ((n, dt) # cs) downloaded t =
     (if n = 0 then image_loop total_bytes cs downloaded t
      else (case control_check t of
              Inl t' \<Rightarrow> Inl t'
            | Inr t' \<Rightarrow>
                image_loop total_bytes cs (downloaded + int n)
                  (if total_bytes \<noteq> 0 then image_progress total_bytes (downloaded + int n) dt t' else t')))"

text \<open>\<^verbatim>\<open>fname = f"{task.id}.{ext}"\<close> with \<^verbatim>\<open>ext = (task.fmt or "jpg").lstrip(".")\<close>\<close>

definition image_fname :: "task \<Rightarrow> string" where
  "image_fname t = tid t @ ''.'' @ py_lstrip_chars ''.'' (if fmt t = [] then ''jpg'' else fmt t)"

definition image_done :: "string \<Rightarrow> string \<Rightarrow> task \<Rightarrow> task" where
  "image_done fname now t =
     t\<lparr>status := ''completed'', progress := Finite 1, filename := Some fname,
       download_url := Some (''/downloads/'' @ fname), downloaded_at := Some now\<rparr>"

definition run_image :: "image_env \<Rightarrow> task \<Rightarrow> task" where
  "run_image env t =
     (case img_request env of
        Inl msg \<Rightarrow> worker_error msg (set_downloading t)
      | Inr total_bytes \<Rightarrow>
          (case image_loop total_bytes (img_chunks env) 0 (set_downloading t) of
             Inl t' \<Rightarrow> t'
           | Inr t' \<Rightarrow>
               (case img_stream_error env of
                  Some msg \<Rightarrow> worker_error msg t'
                | None \<Rightarrow> image_done (image_fname t') (img_now env) t')))"

section \<open>The registry and the endpoints\<close>

text \<open>
  \<^verbatim>\<open>Manager.tasks\<close> is a dictionary from task ids to tasks, here an association list in
  insertion order; \<^verbatim>\<open>tasks[tid] = task\<close> is \<^const>\<open>AList.update\<close> and a lookup is
  \<^const>\<open>map_of\<close>. An endpoint returns its response, or the \<^verbatim>\<open>HTTPException\<close> it raises,
  together with the registry it leaves.
\<close>

type_synonym manager = "(string \<times> task) list"

datatype http_error = HTTPException nat string

definition MAX_TASKS :: nat where
  "MAX_TASKS = 20"

text \<open>
  The message of the rate limit. It starts with a warning sign and a variation selector
  (U+26A0, U+FE0F), written here as their UTF-8 bytes.
\<close>

definition too_many_message :: string where
  "too_many_message =
     [CHR 0xE2, CHR 0x9A, CHR 0xA0, CHR 0xEF, CHR 0xB8, CHR 0x8F]
     @ '' Too many active downloads (max 20). Please wait or clear old tasks.''"

definition active_tasks :: "manager \<Rightarrow> task list" where
  "active_tasks m =
     filter (\<lambda>t. status t = ''pending'' \<or> status t = ''downloading'') (map snd m)"

text \<open>
  \<^verbatim>\<open>start_download\<close>. The fresh id (\<^verbatim>\<open>uuid.uuid4()\<close>) and the result of
  \<^verbatim>\<open>get_video_title\<close> are inputs. The worker thread it starts is \<open>start_runner\<close>
  below; the response is the snapshot of the task before that thread has taken a step.
\<close>

definition start_download ::
  "string \<Rightarrow> string option \<Rightarrow> start_request \<Rightarrow> manager \<Rightarrow> (http_error + task_status) \<times> manager" where
  "start_download new_id fetched_title req m =
     (if length (active_tasks m) \<ge> MAX_TASKS then
        (Inl (HTTPException 429 too_many_message), m)
      else
        (let t = Task_init new_id req;
             t' = (if py_truthy fetched_title then t\<lparr>title := fetched_title\<rparr> else t)
         in (Inr (to_status t'), AList.update new_id t' m)))"

definition start_runner :: "ytdlp_env \<Rightarrow> image_env \<Rightarrow> task \<Rightarrow> task" where
  "start_runner yenv ienv t =
     (if category t = ''video'' \<or> category t = ''audio'' then run_ytdlp yenv t
      else if category t = ''image'' then run_image ienv t
      else t\<lparr>status := ''error'', message := Some ''Unsupported category''\<rparr>)"

definition not_found :: http_error where
  "not_found = HTTPException 404 ''Task not found''"

definition pause_update :: "task \<Rightarrow> task" where
  "pause_update t = t\<lparr>control := ''pause'', status := ''paused''\<rparr>"

definition cancel_update :: "task \<Rightarrow> task" where
  "cancel_update t = t\<lparr>control := ''cancel'', status := ''canceled''\<rparr>"

definition resume_update :: "task \<Rightarrow> task" where
  "resume_update t = t\<lparr>control := '''', status := ''downloading''\<rparr>"

definition get_status :: "string \<Rightarrow> manager \<Rightarrow> http_error + task_status" where
  "get_status i m = (case map_of m i of None \<Rightarrow> Inl not_found | Some t \<Rightarrow> Inr (to_status t))"

definition pause_task :: "string \<Rightarrow> manager \<Rightarrow> (http_error + task_status) \<times> manager" where
  "pause_task i m =
     (case map_of m i of
        None \<Rightarrow> (Inl not_found, m)
      | Some t \<Rightarrow> (Inr (to_status (pause_update t)), AList.update i (pause_update t) m))"

definition cancel_task :: "string \<Rightarrow> manager \<Rightarrow> (http_error + task_status) \<times> manager" where
  "cancel_task i m =
     (case map_of m i of
        None \<Rightarrow> (Inl not_found, m)
      | Some t \<Rightarrow> (Inr (to_status (cancel_update t)), AList.update i (cancel_update t) m))"

text \<open>
  \<^verbatim>\<open>resume_task\<close> and the worker thread it starts. The inner \<^verbatim>\<open>runner\<close> has no
  \<^verbatim>\<open>else\<close> branch.
\<close>

definition resume_task :: "string \<Rightarrow> manager \<Rightarrow> (http_error + task_status) \<times> manager" where
  "resume_task i m =
     (case map_of m i of
        None \<Rightarrow> (Inl not_found, m)
      | Some t \<Rightarrow> (Inr (to_status (resume_update t)), AList.update i (resume_update t) m))"

definition resume_runner :: "ytdlp_env \<Rightarrow> image_env \<Rightarrow> task \<Rightarrow> task" where
  "resume_runner yenv ienv t =
     (if category t = ''video'' \<or> category t = ''audio'' then run_ytdlp yenv t
      else if category t = ''image'' then run_image ienv t
      else t)"

definition clear_completed :: "manager \<Rightarrow> manager" where
  "clear_completed m = filter (\<lambda>(i, t). status t \<noteq> ''completed'') m"

definition clear_canceled :: "manager \<Rightarrow> manager" where
  "clear_canceled m = filter (\<lambda>(i, t). status t \<noteq> ''canceled'') m"

section \<open>The cleanup sweep\<close>

text \<open>
  \<^verbatim>\<open>cleanup_worker\<close> repeats one pass for ever; \<open>cleanup_pass\<close> is the body of its
  \<^verbatim>\<open>while True\<close>. The file system maps the paths that exist to their modification
  times; \<open>remove_fails\<close> tells for which paths \<^verbatim>\<open>os.remove\<close> raises (the exception is
  printed and the file stays). \<^verbatim>\<open>os.path.join\<close> is that of \<^verbatim>\<open>posixpath\<close>.
\<close>

type_synonym filesystem = "string \<Rightarrow> rat option"

definition path_join :: "string \<Rightarrow> string \<Rightarrow> string" where
  "path_join a b =
     (if startswith b ''/'' then b
      else if a = [] \<or> last a = CHR ''/'' then a @ b
      else a @ ''/'' @ b)"

definition cleanup_task ::
  "string \<Rightarrow> rat \<Rightarrow> (string \<Rightarrow> bool) \<Rightarrow> filesystem \<Rightarrow> task \<Rightarrow> filesystem" where
  "cleanup_task download_dir now remove_fails fs t =
     (if (status t = ''completed'' \<or> status t = ''canceled'') \<and> py_truthy (filename t) then
        (case filename t of
           None \<Rightarrow> fs
         | Some f \<Rightarrow>
             (case fs (path_join download_dir f) of
                None \<Rightarrow> fs
              | Some mtime \<Rightarrow>
                  if now - mtime > 600 then
                    (if remove_fails (path_join download_dir f) then fs
                     else fs (path_join download_dir f := None))
                  else fs))
      else fs)"

definition cleanup_pass ::
  "string \<Rightarrow> rat \<Rightarrow> (string \<Rightarrow> bool) \<Rightarrow> manager \<Rightarrow> filesystem \<Rightarrow> filesystem" where
  "cleanup_pass download_dir now remove_fails m fs =
     foldl (\<lambda>fs' (i, t). cleanup_task download_dir now remove_fails fs' t) fs m"

section \<open>The lifecycle of a task\<close>

text \<open>
  Several threads write to one task: its worker (and a second worker after a resume),
  and the control endpoints. \<open>task_step\<close> has one rule for every block of the source
  that writes to a task, with the guards the block reads from the task itself; values
  that come from the worker's local state or from the environment are arbitrary. The
  states \<open>reachable\<close> from a new task are thus at least the states that any
  interleaving of the threads can produce between two such blocks.
\<close>

inductive task_step :: "task \<Rightarrow> task \<Rightarrow> bool" where
  fetched_title: "py_truthy ttl \<Longrightarrow> task_step t (t\<lparr>title := ttl\<rparr>)"
| unsupported: "task_step t (t\<lparr>status := ''error'', message := Some ''Unsupported category''\<rparr>)"
| downloading: "task_step t (set_downloading t)"
| line_progress: "task_step t (t\<lparr>progress := clamp01 (py_div_pos pct 100)\<rparr>)"
| line_speed: "task_step t (t\<lparr>speed := Some v\<rparr>)"
| line_eta: "task_step t (t\<lparr>eta := Some n\<rparr>)"
| line_filename: "task_step t (set_filename fname t)"
| paused: "control t = ''pause'' \<Longrightarrow> task_step t (t\<lparr>status := ''paused''\<rparr>)"
| canceled: "control t = ''cancel'' \<Longrightarrow> task_step t (t\<lparr>status := ''canceled''\<rparr>)"
| fallback: "task_step t (ytdlp_fallback found t)"
| final: "task_step t (ytdlp_final n1 n2 t)"
| failed: "task_step t (worker_error msg t)"
| chunk: "total_bytes \<noteq> 0 \<Longrightarrow> task_step t (image_progress total_bytes downloaded dt t)"
| image_completed: "task_step t (image_done (image_fname t) now t)"
| pause: "task_step t (pause_update t)"
| cancel: "task_step t (cancel_update t)"
| resume: "task_step t (resume_update t)"

inductive reachable :: "task \<Rightarrow> bool" where
  created: "reachable (Task_init i req)"
| step: "reachable t \<Longrightarrow> task_step t t' \<Longrightarrow> reachable t'"

text \<open>
  The order \<^verbatim>\<open><=\<close> on floats, and the floats of the closed interval from 0 to 1.
\<close>

definition py_le :: "pyfloat \<Rightarrow> pyfloat \<Rightarrow> bool" where
  "py_le a b = (py_lt a b \<or> (a = b \<and> a \<noteq> NaN))"

fun in_unit_interval :: "pyfloat \<Rightarrow> bool" where
  "in_unit_interval (Finite r) = (0 \<le> r \<and> r \<le> 1)"
| "in_unit_interval _ = False"

text \<open>
  The states of the task after the updates of each line read by the media worker, up to
  the line at which it returns: in all of them the status is the one the loop started
  with. \<open>written_progress\<close> is the value a line writes to \<^verbatim>\<open>task.progress\<close>, if it
  writes one.
\<close>

fun ytdlp_trace :: "string list \<Rightarrow> task \<Rightarrow> task list" where
  "ytdlp_trace [] t = []"
| "ytdlp_trace (l # ls) t =
     (case control_check (process_line l t) of
        Inl t' \<Rightarrow> [process_line l t]
      | Inr t' \<Rightarrow> process_line l t # ytdlp_trace ls t')"

definition written_progress :: "string \<Rightarrow> pyfloat option" where
  "written_progress raw_line =
     (if startswith (py_strip raw_line) ''[download]'' \<and> py_in ''%'' (py_strip raw_line)
      then map_option (\<lambda>pct. clamp01 (py_div_pos pct 100)) (parse_pct (py_strip raw_line))
      else None)"

text \<open>
  What the source keeps true of the download URL: it is \<^verbatim>\<open>/downloads/\<close> followed by
  the filename whenever there is a filename, and absent otherwise; and a task marked
  completed has a filename.
\<close>

definition url_invariant :: "task \<Rightarrow> bool" where
  "url_invariant t =
     (download_url t = map_option (\<lambda>f. ''/downloads/'' @ f) (filename t)
      \<and> (status t \<noteq> ''completed'' \<or> filename t \<noteq> None))"

text \<open>
  The status in the response of an endpoint, if it did not raise; and the path that
  the sweep examines for a task, if it examines one.
\<close>

definition response_status :: "http_error + task_status \<Rightarrow> string option" where
  "response_status r = (case r of Inl e \<Rightarrow> None | Inr s \<Rightarrow> Some (ts_status s))"

definition swept_path :: "string \<Rightarrow> task \<Rightarrow> string option" where
  "swept_path download_dir t =
     (if (status t = ''completed'' \<or> status t = ''canceled'') \<and> py_truthy (filename t)
      then map_option (path_join download_dir) (filename t)
      else None)"

text \<open>
  The states of the task after each chunk that the image worker writes, up to the chunk
  at which it returns.
\<close>

fun image_trace :: "int \<Rightarrow> (nat \<times> rat) list \<Rightarrow> int \<Rightarrow> task \<Rightarrow> task list" where
  "image_trace total_bytes [] downloaded t = []"
| "image_trace total_bytes ((n, dt) # cs) downloaded t =
     (if n = 0 then image_trace total_bytes cs downloaded t
      else (case control_check t of
              Inl t' \<Rightarrow> []
            | Inr t' \<Rightarrow>
                (if total_bytes \<noteq> 0 then image_progress total_bytes (downloaded + int n) dt t'
                 else t')
                # image_trace total_bytes cs (downloaded + int n)
                    (if total_bytes \<noteq> 0
                     then image_progress total_bytes (downloaded + int n) dt t' else t')))"

section \<open>Concrete inputs\<close>

text \<open>A request, the task created for it, and lines of output used in the examples.\<close>

definition video_request :: start_request where
  "video_request =
     \<lparr>req_url = ''https://example.org/watch'', req_category = ''video'', req_fmt = ''mp4'',
      req_quality = ''720p''\<rparr>"

definition video_task :: task where
  "video_task = Task_init ''t1'' video_request"

definition progress_line :: string where
  "progress_line = ''[download]  42.5% of 10.00MiB at 1.20MiB/s ETA 00:30''"

definition destination_line :: string where
  "destination_line = ''Destination: '' @ [CHR 0x22] @ ''My Video.mp4'' @ [CHR 0x22]"

text \<open>The task after the worker has started and has read the destination line.\<close>

definition destination_state :: task where
  "destination_state = process_line destination_line (set_downloading video_task)"

text \<open>The task after the worker has started and has read the progress line.\<close>

definition progress_state :: task where
  "progress_state = process_line progress_line (set_downloading video_task)"

text \<open>
  Two progress lines as the executable prints them when it fetches the video stream and
  then the audio stream, and the task after the first of them.
\<close>

definition video_stream_line :: string where
  "video_stream_line = ''[download]  50.0% of 10.00MiB at 1.20MiB/s ETA 00:04''"

definition audio_stream_line :: string where
  "audio_stream_line = ''[download]  10.0% of 3.00MiB at 1.20MiB/s ETA 00:02''"

definition half_state :: task where
  "half_state = process_line video_stream_line (set_downloading video_task)"

text \<open>Two runs of the media worker: one whose output names the file, one that names none.\<close>

definition named_run :: ytdlp_env where
  "named_run =
     \<lparr>popen = Inr [destination_line, progress_line], glob_result = [],
      now1 = ''2024-05-01 10:00:00'', now2 = ''2024-05-01 10:00:01''\<rparr>"

definition unnamed_run :: ytdlp_env where
  "unnamed_run =
     \<lparr>popen = Inr [progress_line], glob_result = [],
      now1 = ''2024-05-01 10:00:00'', now2 = ''2024-05-01 10:00:01''\<rparr>"

definition idle_image :: image_env where
  "idle_image =
     \<lparr>img_request = Inl ''connection refused'', img_chunks = [], img_stream_error = None,
      img_now = ''2024-05-01 10:00:00''\<rparr>"

text \<open>A registry of twenty pending tasks with the ids \<^verbatim>\<open>x\<close>, \<^verbatim>\<open>xx\<close>, and so on.\<close>

definition twenty_tasks :: manager where
  "twenty_tasks =
     map (\<lambda>n. (replicate (Suc n) (CHR ''x''), Task_init (replicate (Suc n) (CHR ''x'')) video_request))
       [0..<20]"

text \<open>
  A registry with a completed and a canceled task, and a download directory in which the
  file of the first was modified 601 seconds and that of the second 599 seconds before
  the time 10000 of the sweep.
\<close>

definition swept_tasks :: manager where
  "swept_tasks =
     [(''t1'', video_task\<lparr>status := ''completed'', filename := Some ''old.mp4''\<rparr>),
      (''t2'', (Task_init ''t2'' video_request)\<lparr>status := ''canceled'', filename := Some ''new.mp4''\<rparr>)]"

definition swept_files :: filesystem where
  "swept_files = (\<lambda>p. None)(''/app/downloads/old.mp4'' := Some 9399,
                              ''/app/downloads/new.mp4'' := Some 9401)"

text \<open>A task of a category that no worker serves.\<close>

definition document_task :: task where
  "document_task =
     Task_init ''t3'' (video_request\<lparr>req_category := ''document''\<rparr>)"

text \<open>
  A run whose output resolves no name but whose fallback search finds two files; a line
  with which the executable reports a failure, and a run that prints only this line and
  finds no file; and a task that was paused after its destination line and then resumed.
\<close>

definition found_run :: ytdlp_env where
  "found_run =
     \<lparr>popen = Inr [progress_line],
      glob_result = [''/app/downloads/t1.mp4'', ''/app/downloads/t1.f137.mp4''],
      now1 = ''2024-05-01 10:00:00'', now2 = ''2024-05-01 10:00:01''\<rparr>"

definition error_line :: string where
  "error_line = ''ERROR: unable to download video data''"

definition failed_run :: ytdlp_env where
  "failed_run =
     \<lparr>popen = Inr [error_line], glob_result = [],
      now1 = ''2024-05-01 10:05:00'', now2 = ''2024-05-01 10:05:01''\<rparr>"

definition first_run :: ytdlp_env where
  "first_run =
     \<lparr>popen = Inr [destination_line], glob_result = [],
      now1 = ''2024-05-01 10:00:00'', now2 = ''2024-05-01 10:00:01''\<rparr>"

definition stale_task :: task where
  "stale_task = resume_update (run_ytdlp first_run (pause_update video_task))"

section \<open>Facts about the string and float functions\<close>

lemma py_split1_nonempty: "py_split1 sep s \<noteq> []"
  by (induction s) (auto split: list.splits)

lemma py_split1_length: "py_in sep s \<Longrightarrow> sep \<noteq> [] \<Longrightarrow> length (py_split1 sep s) = 2"
proof (induction s)
  case Nil
  then show ?case by simp
next
  case (Cons c cs)
  show ?case
  proof (cases "startswith (c # cs) sep")
    case True
    then show ?thesis by simp
  next
    case False
    with Cons.prems have "py_in sep cs" by simp
    then have "length (py_split1 sep cs) = 2" using Cons.prems(2) by (rule Cons.IH)
    then obtain a b where "py_split1 sep cs = [a, b]"
      by (cases "py_split1 sep cs" rule: list.exhaust)
         (auto simp: length_Suc_conv)
    with False show ?thesis by simp
  qed
qed

lemma clamp01_unit: "in_unit_interval (clamp01 x)"
  by (cases x) (auto simp: clamp01_def py_min_def py_max_def)

lemma py_le_refl: "in_unit_interval a \<Longrightarrow> py_le a a"
  by (cases a) (auto simp: py_le_def)

lemma py_lt_trans: "py_lt a b \<Longrightarrow> py_lt b c \<Longrightarrow> py_lt a c"
  by (cases a; cases b; cases c) auto

lemma py_le_trans: "py_le a b \<Longrightarrow> py_le b c \<Longrightarrow> py_le a c"
  unfolding py_le_def by (auto dest: py_lt_trans)

lemma py_le_zero_unit: "in_unit_interval a \<Longrightarrow> py_le (Finite 0) a"
  by (cases a) (auto simp: py_le_def)

section \<open>Every run of a worker is a sequence of steps\<close>

lemma reachable_steps: "task_step\<^sup>*\<^sup>* t t' \<Longrightarrow> reachable t \<Longrightarrow> reachable t'"
  by (induction rule: rtranclp_induct) (auto intro: reachable.step)

lemma parse_eta_steps: "task_step\<^sup>*\<^sup>* t (parse_eta line t)"
  by (auto simp: parse_eta_def intro: task_step.line_eta split: option.splits)

lemma parse_speed_steps: "task_step\<^sup>*\<^sup>* t (parse_speed line t)"
proof (cases "speed_re_search line")
  case None
  then show ?thesis by (simp add: parse_speed_def parse_eta_steps)
next
  case (Some vu)
  obtain val unit where vu: "vu = (val, unit)" by (cases vu)
  show ?thesis
  proof (cases "py_float val")
    case None
    with Some vu show ?thesis by (simp add: parse_speed_def)
  next
    case (Some v)
    have "task_step t (t\<lparr>speed := Some (py_mul_pos v (speed_mult unit))\<rparr>)"
      by (rule task_step.line_speed)
    then have "task_step\<^sup>*\<^sup>* t (parse_eta line (t\<lparr>speed := Some (py_mul_pos v (speed_mult unit))\<rparr>))"
      by (rule converse_rtranclp_into_rtranclp) (rule parse_eta_steps)
    with Some \<open>speed_re_search line = Some vu\<close> vu show ?thesis
      by (simp add: parse_speed_def)
  qed
qed

lemma parse_progress_steps: "task_step\<^sup>*\<^sup>* t (parse_progress line t)"
proof (cases "parse_pct line")
  case None
  then show ?thesis by (simp add: parse_progress_def)
next
  case (Some pct)
  have "task_step t (t\<lparr>progress := clamp01 (py_div_pos pct 100)\<rparr>)"
    by (rule task_step.line_progress)
  then have "task_step\<^sup>*\<^sup>* t (parse_speed line (t\<lparr>progress := clamp01 (py_div_pos pct 100)\<rparr>))"
    by (rule converse_rtranclp_into_rtranclp) (rule parse_speed_steps)
  with Some show ?thesis by (simp add: parse_progress_def)
qed

lemma set_filename_steps: "task_step\<^sup>*\<^sup>* t t' \<Longrightarrow> task_step\<^sup>*\<^sup>* t (set_filename f t')"
  by (rule rtranclp.rtrancl_into_rtrancl) (auto intro: task_step.line_filename)

lemma process_line_steps: "task_step\<^sup>*\<^sup>* t (process_line l t)"
  by (simp add: process_line_def Let_def parse_progress_steps set_filename_steps)

lemma control_check_continue: "control_check t = Inr t' \<Longrightarrow> t' = t"
  by (auto simp: control_check_def split: if_splits)

lemma control_check_return: "control_check t = Inl t' \<Longrightarrow> task_step t t'"
  by (auto simp: control_check_def split: if_splits intro: task_step.paused task_step.canceled)

lemma ytdlp_loop_steps:
  "ytdlp_loop ls t = Inl t' \<or> ytdlp_loop ls t = Inr t' \<Longrightarrow> task_step\<^sup>*\<^sup>* t t'"
proof (induction ls arbitrary: t)
  case Nil
  then show ?case by simp
next
  case (Cons l ls)
  have line: "task_step\<^sup>*\<^sup>* t (process_line l t)" by (rule process_line_steps)
  show ?case
  proof (cases "control_check (process_line l t)")
    case (Inl u)
    with Cons.prems have "t' = u" by simp
    with Inl have "task_step (process_line l t) t'" by (simp add: control_check_return)
    with line show ?thesis by (rule rtranclp.rtrancl_into_rtrancl)
  next
    case (Inr u)
    then have u: "u = process_line l t" by (rule control_check_continue)
    from Cons.prems Inr have "ytdlp_loop ls u = Inl t' \<or> ytdlp_loop ls u = Inr t'" by simp
    then have "task_step\<^sup>*\<^sup>* u t'" by (rule Cons.IH)
    with line u show ?thesis by simp
  qed
qed

lemma ytdlp_trace_steps: "u \<in> set (ytdlp_trace ls t) \<Longrightarrow> task_step\<^sup>*\<^sup>* t u"
proof (induction ls arbitrary: t)
  case Nil
  then show ?case by simp
next
  case (Cons l ls)
  have line: "task_step\<^sup>*\<^sup>* t (process_line l t)" by (rule process_line_steps)
  show ?case
  proof (cases "control_check (process_line l t)")
    case (Inl v)
    with Cons.prems line show ?thesis by simp
  next
    case (Inr v)
    then have v: "v = process_line l t" by (rule control_check_continue)
    from Cons.prems Inr v consider "u = process_line l t" | "u \<in> set (ytdlp_trace ls (process_line l t))"
      by auto
    then show ?thesis
    proof cases
      case 1
      with line show ?thesis by simp
    next
      case 2
      then have "task_step\<^sup>*\<^sup>* (process_line l t) u" by (rule Cons.IH)
      with line show ?thesis by simp
    qed
  qed
qed

lemma run_ytdlp_steps: "task_step\<^sup>*\<^sup>* t (run_ytdlp env t)"
proof -
  have start: "task_step\<^sup>*\<^sup>* t (set_downloading t)"
    by (rule r_into_rtranclp) (rule task_step.downloading)
  show ?thesis
  proof (cases "popen env")
    case (Inl msg)
    have "task_step (set_downloading t) (worker_error msg (set_downloading t))"
      by (rule task_step.failed)
    with start Inl show ?thesis by (simp add: run_ytdlp_def)
  next
    case (Inr lines)
    show ?thesis
    proof (cases "ytdlp_loop lines (set_downloading t)")
      case (Inl u)
      have "task_step\<^sup>*\<^sup>* (set_downloading t) u" by (rule ytdlp_loop_steps [of lines]) (simp add: Inl)
      with start Inl \<open>popen env = Inr lines\<close> show ?thesis by (simp add: run_ytdlp_def)
    next
      case (Inr u)
      have "task_step\<^sup>*\<^sup>* (set_downloading t) u" by (rule ytdlp_loop_steps [of lines]) (simp add: Inr)
      with start have "task_step\<^sup>*\<^sup>* t u" by simp
      moreover have "task_step u (ytdlp_fallback (glob_result env) u)"
        by (rule task_step.fallback)
      moreover have "task_step (ytdlp_fallback (glob_result env) u)
          (ytdlp_final (now1 env) (now2 env) (ytdlp_fallback (glob_result env) u))"
        by (rule task_step.final)
      ultimately have "task_step\<^sup>*\<^sup>* t
          (ytdlp_final (now1 env) (now2 env) (ytdlp_fallback (glob_result env) u))"
        by simp
      with Inr \<open>popen env = Inr lines\<close> show ?thesis by (simp add: run_ytdlp_def)
    qed
  qed
qed

lemma image_loop_steps:
  "image_loop b cs d t = Inl t' \<or> image_loop b cs d t = Inr t' \<Longrightarrow> task_step\<^sup>*\<^sup>* t t'"
proof (induction b cs d t rule: image_loop.induct)
  case (1 b d t)
  then show ?case by simp
next
  case (2 b n dt cs d t)
  show ?case
  proof (cases "n = 0")
    case True
    with 2 show ?thesis by simp
  next
    case False
    show ?thesis
    proof (cases "control_check t")
      case (Inl u)
      with False "2.prems" have "t' = u" by simp
      with Inl show ?thesis by (auto dest: control_check_return)
    next
      case (Inr u)
      then have u: "u = t" by (rule control_check_continue)
      let ?t1 = "if b \<noteq> 0 then image_progress b (d + int n) dt t else t"
      have "task_step\<^sup>*\<^sup>* t ?t1"
        by (auto intro: task_step.chunk)
      moreover from False Inr u "2.prems" "2.IH"(2) have "task_step\<^sup>*\<^sup>* ?t1 t'"
        by simp
      ultimately show ?thesis by simp
    qed
  qed
qed

lemma run_image_steps: "task_step\<^sup>*\<^sup>* t (run_image env t)"
proof -
  have start: "task_step\<^sup>*\<^sup>* t (set_downloading t)"
    by (rule r_into_rtranclp) (rule task_step.downloading)
  show ?thesis
  proof (cases "img_request env")
    case (Inl msg)
    have "task_step (set_downloading t) (worker_error msg (set_downloading t))"
      by (rule task_step.failed)
    with start Inl show ?thesis by (simp add: run_image_def)
  next
    case (Inr b)
    show ?thesis
    proof (cases "image_loop b (img_chunks env) 0 (set_downloading t)")
      case (Inl u)
      have "task_step\<^sup>*\<^sup>* (set_downloading t) u" by (rule image_loop_steps [of b "img_chunks env" 0]) (simp add: Inl)
      with start Inl \<open>img_request env = Inr b\<close> show ?thesis by (simp add: run_image_def)
    next
      case (Inr u)
      have "task_step\<^sup>*\<^sup>* (set_downloading t) u" by (rule image_loop_steps [of b "img_chunks env" 0]) (simp add: Inr)
      with start have u: "task_step\<^sup>*\<^sup>* t u" by simp
      have "task_step u (worker_error msg u)" for msg by (rule task_step.failed)
      moreover have "task_step u (image_done (image_fname u) (img_now env) u)"
        by (rule task_step.image_completed)
      ultimately have "task_step u (run_image env t)"
        using Inr \<open>img_request env = Inr b\<close> by (simp add: run_image_def split: option.splits)
      with u show ?thesis by simp
    qed
  qed
qed

lemma start_runner_steps: "task_step\<^sup>*\<^sup>* t (start_runner yenv ienv t)"
  by (auto simp: start_runner_def run_ytdlp_steps run_image_steps intro: task_step.unsupported)

lemma resume_runner_steps: "task_step\<^sup>*\<^sup>* t (resume_runner yenv ienv t)"
  by (simp add: resume_runner_def run_ytdlp_steps run_image_steps)

section \<open>What the parsing blocks leave unchanged\<close>

lemma set_downloading_fields:
  "status (set_downloading t) = ''downloading''"
  "progress (set_downloading t) = Finite 0"
  "control (set_downloading t) = control t"
  by (simp_all add: set_downloading_def)

lemma parse_eta_frame:
  "progress (parse_eta line t) = progress t"
  "status (parse_eta line t) = status t"
  "control (parse_eta line t) = control t"
  by (simp_all add: parse_eta_def split: option.splits)

lemma parse_speed_frame:
  "progress (parse_speed line t) = progress t"
  "status (parse_speed line t) = status t"
  "control (parse_speed line t) = control t"
  by (simp_all add: parse_speed_def parse_eta_frame split: option.splits)

lemma parse_progress_frame:
  "status (parse_progress line t) = status t"
  "control (parse_progress line t) = control t"
  by (simp_all add: parse_progress_def parse_speed_frame split: option.splits)

lemma parse_progress_progress:
  "progress (parse_progress line t) =
     (case parse_pct line of None \<Rightarrow> progress t | Some pct \<Rightarrow> clamp01 (py_div_pos pct 100))"
  by (simp add: parse_progress_def parse_speed_frame split: option.splits)

lemma process_line_frame:
  "status (process_line l t) = status t"
  "control (process_line l t) = control t"
  by (simp_all add: process_line_def Let_def set_filename_def parse_progress_frame)

lemma process_line_progress:
  "progress (process_line l t) = (case written_progress l of None \<Rightarrow> progress t | Some p \<Rightarrow> p)"
  by (simp add: process_line_def Let_def set_filename_def written_progress_def
      parse_progress_progress split: option.splits)

lemma written_progress_unit: "written_progress l = Some p \<Longrightarrow> in_unit_interval p"
  by (auto simp: written_progress_def clamp01_unit split: if_splits)

lemma ytdlp_loop_status: "ytdlp_loop ls t = Inr t1 \<Longrightarrow> status t1 = status t"
proof (induction ls arbitrary: t)
  case Nil
  then show ?case by simp
next
  case (Cons l ls)
  from Cons.prems obtain u where u: "control_check (process_line l t) = Inr u"
    and rest: "ytdlp_loop ls u = Inr t1"
    by (auto split: sum.splits)
  from u have "u = process_line l t" by (rule control_check_continue)
  with Cons.IH [OF rest] show ?case by (simp add: process_line_frame)
qed

lemma ytdlp_fallback_status: "status (ytdlp_fallback found t) = status t"
  by (simp add: ytdlp_fallback_def split: list.splits)

section \<open>Parsing of single lines\<close>

lemma progress_line_shape:
  "py_strip progress_line = progress_line"
  "startswith progress_line ''[download]''"
  "py_in ''%'' progress_line"
  "\<not> py_in ''Destination:'' progress_line"
  "\<not> py_in merging_marker progress_line"
  by code_simp+

lemma progress_line_fields:
  "parse_pct progress_line = Some (Finite 42.5)"
  "speed_re_search progress_line = Some (''1.20'', ''MiB'')"
  "py_float ''1.20'' = Some (Finite 1.2)"
  "eta_re_search progress_line = Some (''00'', ''30'')"
  "digits_val ''00'' = 0"
  "digits_val ''30'' = 30"
  by code_simp+

text \<open>
  Claim C4. One iteration of the media worker on the line
  \<^verbatim>\<open>[download]  42.5% of 10.00MiB at 1.20MiB/s ETA 00:30\<close> sets the progress to 0.425,
  the speed to 1.2 times 1024 squared bytes per second and the ETA to 30 seconds,
  whatever the task was before.
\<close>

theorem C4_progress_line_parsed:
  "progress (process_line progress_line t) = Finite 0.425
   \<and> speed (process_line progress_line t) = Some (Finite (1.2 * 1024 ^ 2))
   \<and> eta (process_line progress_line t) = Some 30"
  by (simp add: process_line_def progress_line_shape progress_line_fields parse_progress_def
      parse_speed_def parse_eta_def clamp01_def py_min_def py_max_def speed_mult_def)

theorem C4_progress_line_parsed_witness:
  "progress (process_line progress_line video_task) = Finite 0.425
   \<and> speed (process_line progress_line video_task) = Some (Finite (1.2 * 1024 ^ 2))
   \<and> eta (process_line progress_line video_task) = Some 30"
  by (rule C4_progress_line_parsed)

lemma destination_line_shape:
  "py_strip destination_line = destination_line"
  "\<not> startswith destination_line ''[download]''"
  "py_in ''Destination:'' destination_line"
  "\<not> py_in merging_marker destination_line"
  "py_strip_chars [CHR 0x22] (py_strip (py_split1 ''Destination:'' destination_line ! 1))
     = ''My Video.mp4''"
  "basename ''My Video.mp4'' = ''My Video.mp4''"
  by code_simp+

text \<open>
  Claim C9. One iteration of the media worker on the line
  \<^verbatim>\<open>Destination: "My Video.mp4"\<close> sets the filename to \<^verbatim>\<open>My Video.mp4\<close> (the quotes
  stripped, the base name taken) and leaves the title as it was.
\<close>

theorem C9_destination_sets_filename:
  "filename (process_line destination_line t) = Some ''My Video.mp4''
   \<and> title (process_line destination_line t) = title t"
  by (simp add: process_line_def destination_line_shape set_filename_def del: One_nat_def)

theorem C9_destination_sets_filename_witness:
  "filename (process_line destination_line (video_task\<lparr>title := Some ''A title''\<rparr>))
     = Some ''My Video.mp4''
   \<and> title (process_line destination_line (video_task\<lparr>title := Some ''A title''\<rparr>))
     = Some ''A title''"
  using C9_destination_sets_filename [of "video_task\<lparr>title := Some ''A title''\<rparr>"] by simp

section \<open>Invariants of the lifecycle\<close>

lemma task_step_progress_unit:
  "task_step t t' \<Longrightarrow> in_unit_interval (progress t) \<Longrightarrow> in_unit_interval (progress t')"
proof (induction rule: task_step.induct)
  case (fallback found t)
  then show ?case by (simp add: ytdlp_fallback_def split: list.splits)
next
  case (final n1 n2 t)
  then show ?case by (simp add: ytdlp_final_def Let_def split: option.splits)
next
  case (chunk b d dt t)
  then show ?case by (simp add: image_progress_def Let_def clamp01_unit)
qed (simp_all add: set_downloading_def clamp01_unit set_filename_def worker_error_def
      image_done_def pause_update_def cancel_update_def resume_update_def)

lemma reachable_progress_unit: "reachable t \<Longrightarrow> in_unit_interval (progress t)"
proof (induction rule: reachable.induct)
  case (created i req)
  show ?case by (simp add: Task_init_def)
next
  case (step t t')
  then show ?case by (blast intro: task_step_progress_unit)
qed

lemma progress_state_reachable: "reachable progress_state"
  unfolding progress_state_def
  by (intro reachable_steps [OF process_line_steps] reachable.step [OF _ task_step.downloading])
     (simp add: video_task_def reachable.created)

text \<open>
  Claim C3. At every point of a task's lifecycle the stored progress is a finite number
  of the closed interval from 0 to 1: every percentage parsed from a line, NaN and the
  infinities included, and every byte ratio is clamped before it is written, and the
  other writes are 0.0 and 1.0. In particular this holds after a whole run of either
  worker.
\<close>

theorem C3_progress_in_unit_interval:
  assumes "reachable t"
  shows "in_unit_interval (progress t)
         \<and> in_unit_interval (progress (run_ytdlp yenv t))
         \<and> in_unit_interval (progress (run_image ienv t))"
proof -
  from assms have "reachable (run_ytdlp yenv t)" and "reachable (run_image ienv t)"
    by (auto intro: reachable_steps [OF run_ytdlp_steps] reachable_steps [OF run_image_steps])
  with assms show ?thesis by (simp add: reachable_progress_unit)
qed

theorem C3_progress_in_unit_interval_witness:
  "reachable progress_state \<and> progress progress_state = Finite 0.425
   \<and> in_unit_interval (progress progress_state)"
proof -
  have "progress progress_state = Finite 0.425"
    by (simp add: progress_state_def process_line_def progress_line_shape progress_line_fields
        parse_progress_def parse_speed_def parse_eta_def clamp01_def py_min_def py_max_def)
  with C3_progress_in_unit_interval [OF progress_state_reachable] progress_state_reachable
  show ?thesis by simp
qed

lemma task_step_url_invariant: "task_step t t' \<Longrightarrow> url_invariant t \<Longrightarrow> url_invariant t'"
proof (induction rule: task_step.induct)
  case (fallback found t)
  then show ?case
    by (auto simp: url_invariant_def ytdlp_fallback_def py_truthy_def split: list.splits option.splits)
next
  case (final n1 n2 t)
  then show ?case
    by (auto simp: url_invariant_def ytdlp_final_def Let_def py_truthy_def split: option.splits)
next
  case (image_completed t now)
  then show ?case
    by (simp add: url_invariant_def image_done_def)
qed (auto simp: url_invariant_def set_downloading_def set_filename_def worker_error_def
      image_progress_def Let_def pause_update_def cancel_update_def resume_update_def)

lemma reachable_url_invariant: "reachable t \<Longrightarrow> url_invariant t"
proof (induction rule: reachable.induct)
  case (created i req)
  show ?case by (simp add: url_invariant_def Task_init_def)
next
  case (step t t')
  then show ?case by (blast intro: task_step_url_invariant)
qed

lemma destination_state_reachable: "reachable destination_state"
  unfolding destination_state_def
  by (intro reachable_steps [OF process_line_steps] reachable.step [OF _ task_step.downloading])
     (simp add: video_task_def reachable.created)

lemma destination_state_fields:
  "status destination_state = ''downloading''"
  "filename destination_state = Some ''My Video.mp4''"
  "download_url destination_state = Some ''/downloads/My Video.mp4''"
  by (simp_all add: destination_state_def process_line_def destination_line_shape
      set_filename_def set_downloading_def del: One_nat_def)

text \<open>
  Claim C1, as stated, fails: once the media worker has read a destination line, the
  task has a download URL while its status is still \<^verbatim>\<open>downloading\<close>.
\<close>

theorem C1_url_before_completed:
  "reachable destination_state
   \<and> status destination_state = ''downloading''
   \<and> filename destination_state = Some ''My Video.mp4''
   \<and> download_url destination_state = Some ''/downloads/My Video.mp4''
   \<and> \<not> (download_url destination_state \<noteq> None
          \<longleftrightarrow> filename destination_state \<noteq> None \<and> status destination_state = ''completed'')"
  by (simp add: destination_state_reachable destination_state_fields)

text \<open>
  Claim C1, amended. At every point of a task's lifecycle the download URL is non-null
  if and only if the filename is non-null, whatever the status; and a task whose status
  is \<^verbatim>\<open>completed\<close> has both.
\<close>

theorem C1_url_iff_filename:
  assumes "reachable t"
  shows "(download_url t \<noteq> None \<longleftrightarrow> filename t \<noteq> None)
         \<and> (status t = ''completed'' \<longrightarrow> filename t \<noteq> None \<and> download_url t \<noteq> None)"
  using reachable_url_invariant [OF assms]
  by (auto simp: url_invariant_def py_truthy_def split: option.splits)

theorem C1_url_iff_filename_witness:
  "reachable destination_state
   \<and> download_url destination_state \<noteq> None \<and> filename destination_state \<noteq> None
   \<and> status destination_state \<noteq> ''completed''"
  using C1_url_iff_filename [OF destination_state_reachable] destination_state_reachable
  by (simp add: destination_state_fields)

section \<open>Progress over a run of a worker\<close>

lemma ytdlp_trace_sorted:
  "in_unit_interval (progress t) \<Longrightarrow>
   sorted_wrt py_le (progress t # List.map_filter written_progress ls) \<Longrightarrow>
   sorted_wrt py_le (progress t # map progress (ytdlp_trace ls t))"
proof (induction ls arbitrary: t)
  case Nil
  then show ?case by simp
next
  case (Cons l ls)
  let ?u = "process_line l t"
  have unit_u: "in_unit_interval (progress ?u)"
    using Cons.prems(1)
    by (auto simp: process_line_progress written_progress_unit split: option.splits)
  have le_u: "py_le (progress t) (progress ?u)"
    using Cons.prems
    by (auto simp: process_line_progress List.map_filter_simps py_le_refl split: option.splits)
  have rest: "sorted_wrt py_le (progress ?u # List.map_filter written_progress ls)"
    using Cons.prems
    by (auto simp: process_line_progress List.map_filter_simps split: option.splits)
  have tail: "sorted_wrt py_le (progress ?u # map progress (ytdlp_trace ls ?u))"
    using unit_u rest by (rule Cons.IH)
  have "sorted_wrt py_le (progress t # progress ?u # map progress (ytdlp_trace ls ?u))"
    using tail le_u by (auto intro: py_le_trans)
  then show ?case
    by (cases "control_check ?u") (auto dest: control_check_continue)
qed

lemma clamp01_Finite: "clamp01 (Finite x) = Finite (max 0 (min 1 x))"
  by (simp add: clamp01_def py_min_def py_max_def max_def min_def)

lemma ratio_mono:
  assumes "0 \<le> d" and "d \<le> d'" and "b \<noteq> 0"
  shows "py_le (clamp01 (Finite (of_int d / of_int b))) (clamp01 (Finite (of_int d' / of_int b)))"
proof (cases "0 < b")
  case True
  with assms(2) have "(of_int d :: rat) / of_int b \<le> of_int d' / of_int b"
    by (simp add: divide_right_mono)
  then show ?thesis by (auto simp: clamp01_Finite py_le_def max_def min_def)
next
  case False
  with assms(3) have neg: "(of_int b :: rat) < 0" by simp
  from assms have "0 \<le> d'" by simp
  with neg assms(1) have "(of_int d :: rat) / of_int b \<le> 0" and "(of_int d' :: rat) / of_int b \<le> 0"
    by (simp_all add: divide_nonneg_neg)
  then show ?thesis by (simp add: clamp01_Finite py_le_def max_def min_def)
qed

lemma sorted_wrt_py_le_Cons:
  "py_le a b \<Longrightarrow> sorted_wrt py_le (b # xs) \<Longrightarrow> sorted_wrt py_le (a # b # xs)"
  by (auto intro: py_le_trans)

lemma image_progress_progress:
  "progress (image_progress b d dt t) = clamp01 (Finite (of_int d / of_int b))"
  by (simp add: image_progress_def Let_def)

lemma image_trace_sorted:
  "0 \<le> d \<Longrightarrow> in_unit_interval (progress t) \<Longrightarrow>
   (b \<noteq> 0 \<longrightarrow> progress t = clamp01 (Finite (of_int d / of_int b))) \<Longrightarrow>
   sorted_wrt py_le (progress t # map progress (image_trace b cs d t))"
proof (induction b cs d t rule: image_trace.induct)
  case (1 b d t)
  show ?case by simp
next
  case (2 b n dt cs d t)
  show ?case
  proof (cases "n = 0")
    case True
    with 2 show ?thesis by simp
  next
    case False
    show ?thesis
    proof (cases "control_check t")
      case (Inl u)
      with False show ?thesis by simp
    next
      case (Inr u)
      then have u: "u = t" by (rule control_check_continue)
      let ?v = "if b \<noteq> 0 then image_progress b (d + int n) dt u else u"
      have d': "0 \<le> d + int n" using "2.prems"(1) by simp
      have unit_v: "in_unit_interval (progress ?v)"
        using "2.prems"(2) u by (simp add: image_progress_progress clamp01_unit)
      have ratio_v: "b \<noteq> 0 \<longrightarrow> progress ?v = clamp01 (Finite (of_int (d + int n) / of_int b))"
        by (simp add: image_progress_progress)
      have le: "py_le (progress t) (progress ?v)"
      proof (cases "b = 0")
        case True
        with "2.prems"(2) u show ?thesis by (simp add: py_le_refl)
      next
        case b: False
        have "py_le (clamp01 (Finite (of_int d / of_int b)))
                (clamp01 (Finite (of_int (d + int n) / of_int b)))"
          using "2.prems"(1) _ b by (rule ratio_mono) simp
        with b "2.prems"(3) show ?thesis
          by (simp add: image_progress_progress)
      qed
      have "sorted_wrt py_le (progress ?v # map progress (image_trace b cs (d + int n) ?v))"
        using False Inr d' unit_v ratio_v by (rule "2.IH"(2))
      with le have sorted: "sorted_wrt py_le
          (progress t # progress ?v # map progress (image_trace b cs (d + int n) ?v))"
        by (rule sorted_wrt_py_le_Cons)
      have eq: "image_trace b ((n, dt) # cs) d t = ?v # image_trace b cs (d + int n) ?v"
        using False Inr by simp
      from sorted show ?thesis by (simp only: eq list.map)
    qed
  qed
qed

lemma ytdlp_trace_sorted_conv:
  "control t \<noteq> ''pause'' \<Longrightarrow> control t \<noteq> ''cancel'' \<Longrightarrow>
   sorted_wrt py_le (progress t # map progress (ytdlp_trace ls t)) \<Longrightarrow>
   sorted_wrt py_le (progress t # List.map_filter written_progress ls)"
proof (induction ls arbitrary: t)
  case Nil
  then show ?case by (simp add: List.map_filter_simps)
next
  case (Cons l ls)
  let ?u = "process_line l t"
  have ctl: "control ?u \<noteq> ''pause''" "control ?u \<noteq> ''cancel''"
    using Cons.prems(1,2) by (simp_all add: process_line_frame)
  then have check: "control_check ?u = Inr ?u" by (simp add: control_check_def)
  from Cons.prems(3) check
  have le: "py_le (progress t) (progress ?u)"
    and tail: "sorted_wrt py_le (progress ?u # map progress (ytdlp_trace ls ?u))"
    by simp_all
  from ctl tail have rest: "sorted_wrt py_le (progress ?u # List.map_filter written_progress ls)"
    by (rule Cons.IH)
  show ?case
  proof (cases "written_progress l")
    case None
    with rest show ?thesis by (simp add: List.map_filter_simps process_line_progress)
  next
    case (Some p)
    then have p: "progress ?u = p" by (simp add: process_line_progress)
    from le rest have "sorted_wrt py_le
        (progress t # progress ?u # List.map_filter written_progress ls)"
      by (rule sorted_wrt_py_le_Cons)
    with Some p show ?thesis by (simp add: List.map_filter_simps)
  qed
qed

lemma ytdlp_loop_last: "ytdlp_loop ls t = Inr u \<Longrightarrow> u = last (t # ytdlp_trace ls t)"
proof (induction ls arbitrary: t)
  case Nil
  then show ?case by simp
next
  case (Cons l ls)
  from Cons.prems obtain v where v: "control_check (process_line l t) = Inr v"
    and rest: "ytdlp_loop ls v = Inr u"
    by (auto split: sum.splits)
  from v have "v = process_line l t" by (rule control_check_continue)
  with Cons.IH [OF rest] v show ?case by simp
qed

lemma image_loop_last: "image_loop b cs d t = Inr u \<Longrightarrow> u = last (t # image_trace b cs d t)"
proof (induction b cs d t rule: image_loop.induct)
  case (1 b d t)
  then show ?case by simp
next
  case (2 b n dt cs d t)
  show ?case
  proof (cases "n = 0")
    case True
    with 2 show ?thesis by simp
  next
    case False
    with "2.prems" obtain v where v: "control_check t = Inr v"
      and rest: "image_loop b cs (d + int n)
                   (if b \<noteq> 0 then image_progress b (d + int n) dt v else v) = Inr u"
      by (auto split: sum.splits)
    from "2.IH"(2) [OF False v rest] False v show ?thesis by simp
  qed
qed

lemma stream_lines_written:
  "written_progress video_stream_line = Some (Finite 0.5)"
  "written_progress audio_stream_line = Some (Finite 0.1)"
  by code_simp+

lemma video_task_control: "control video_task = []"
  by (simp add: video_task_def Task_init_def)

lemma two_streams_trace:
  "map status (ytdlp_trace [video_stream_line, audio_stream_line] (set_downloading video_task))
     = [''downloading'', ''downloading'']"
  "map progress (ytdlp_trace [video_stream_line, audio_stream_line] (set_downloading video_task))
     = [Finite 0.5, Finite 0.1]"
  by (simp_all add: control_check_def process_line_frame process_line_progress
      stream_lines_written video_task_control set_downloading_fields)

lemma half_state_fields:
  "progress half_state = Finite 0.5"
  "status half_state = ''downloading''"
  by (simp_all add: half_state_def process_line_frame process_line_progress
      stream_lines_written set_downloading_fields)

text \<open>
  Claim C2, as stated, fails in two ways. Within one run, the executable reports the
  video stream and then the audio stream, each from 0 to 100 percent: after two such
  lines the progress has gone from 0.5 down to 0.1 with the status \<^verbatim>\<open>downloading\<close>
  throughout. And a relaunch: a task paused at progress 0.5 and resumed is
  \<^verbatim>\<open>downloading\<close> with progress 0.5, and the first block of the new worker sets the
  progress to 0.
\<close>

theorem C2_progress_decreases:
  "map status (ytdlp_trace [video_stream_line, audio_stream_line] (set_downloading video_task))
     = [''downloading'', ''downloading'']
   \<and> map progress (ytdlp_trace [video_stream_line, audio_stream_line] (set_downloading video_task))
     = [Finite 0.5, Finite 0.1]
   \<and> \<not> py_le (Finite 0.5) (Finite 0.1)
   \<and> status (resume_update (pause_update half_state)) = ''downloading''
   \<and> progress (resume_update (pause_update half_state)) = Finite 0.5
   \<and> status (set_downloading (resume_update (pause_update half_state))) = ''downloading''
   \<and> progress (set_downloading (resume_update (pause_update half_state))) = Finite 0
   \<and> \<not> py_le (Finite 0.5) (Finite 0)"
  using two_streams_trace half_state_fields
  by (simp add: py_le_def resume_update_def pause_update_def set_downloading_fields)

text \<open>
  Claim C2, amended. Every launch of a worker first sets the progress to 0 with the
  status \<^verbatim>\<open>downloading\<close>. In a run of the media worker every progress line then
  overwrites the progress with its own clamped percentage, whatever the progress was
  before, and no other line changes it; so if the clamped percentages of the successive
  progress lines are non-decreasing, the progress is non-decreasing over the updates of
  the run, and in a run that no pause or cancel cuts short the converse holds as well.
  In a run of the image worker a written chunk sets the progress to the clamped ratio
  of the bytes so far to the total, and the progress is non-decreasing over the
  updates of the run without any condition. The traces are those of the loops: the
  state in which a loop ends when its input is exhausted is the last one of its trace.
  A resume request sets the status to \<^verbatim>\<open>downloading\<close> and leaves the progress as it
  was, for the new worker to reset.
\<close>

theorem C2_progress_within_runs:
  "progress (set_downloading t) = Finite 0
   \<and> status (set_downloading t) = ''downloading''
   \<and> progress (process_line l u)
       = (case written_progress l of None \<Rightarrow> progress u | Some p \<Rightarrow> p)
   \<and> status (process_line l u) = status u
   \<and> (sorted_wrt py_le (List.map_filter written_progress ls) \<longrightarrow>
        sorted_wrt py_le
          (map progress (set_downloading t # ytdlp_trace ls (set_downloading t))))
   \<and> (control t \<noteq> ''pause'' \<and> control t \<noteq> ''cancel'' \<longrightarrow>
        sorted_wrt py_le
          (map progress (set_downloading t # ytdlp_trace ls (set_downloading t))) \<longrightarrow>
        sorted_wrt py_le (List.map_filter written_progress ls))
   \<and> (ytdlp_loop ls (set_downloading t) = Inr w \<longrightarrow>
        w = last (set_downloading t # ytdlp_trace ls (set_downloading t)))
   \<and> progress (image_progress b d dt u) = clamp01 (Finite (of_int d / of_int b))
   \<and> sorted_wrt py_le
         (map progress (set_downloading t # image_trace b cs 0 (set_downloading t)))
   \<and> (image_loop b cs 0 (set_downloading t) = Inr w' \<longrightarrow>
        w' = last (set_downloading t # image_trace b cs 0 (set_downloading t)))
   \<and> status (resume_update u) = ''downloading''
   \<and> progress (resume_update u) = progress u"
proof -
  let ?s = "set_downloading t"
  have zero: "progress ?s = Finite 0" and unit: "in_unit_interval (progress ?s)"
    by (simp_all add: set_downloading_fields)
  have above: "py_le (Finite 0) p" if "p \<in> set (List.map_filter written_progress ls)" for p
  proof -
    from that obtain k where "written_progress k = Some p"
      by (auto simp: List.map_filter_def)
    then show ?thesis by (blast intro: py_le_zero_unit written_progress_unit)
  qed
  have forth: "sorted_wrt py_le (map progress (?s # ytdlp_trace ls ?s))"
    if "sorted_wrt py_le (List.map_filter written_progress ls)"
  proof -
    from that above
    have "sorted_wrt py_le (progress ?s # List.map_filter written_progress ls)"
      by (simp add: zero)
    with unit have "sorted_wrt py_le (progress ?s # map progress (ytdlp_trace ls ?s))"
      by (rule ytdlp_trace_sorted)
    then show ?thesis by simp
  qed
  have conv: "sorted_wrt py_le (List.map_filter written_progress ls)"
    if "control t \<noteq> ''pause''" and "control t \<noteq> ''cancel''"
      and "sorted_wrt py_le (map progress (?s # ytdlp_trace ls ?s))"
  proof -
    from that(1,2) have "control ?s \<noteq> ''pause''" and "control ?s \<noteq> ''cancel''"
      by (simp_all add: set_downloading_fields)
    moreover from that(3)
    have "sorted_wrt py_le (progress ?s # map progress (ytdlp_trace ls ?s))"
      by simp
    ultimately have "sorted_wrt py_le (progress ?s # List.map_filter written_progress ls)"
      by (rule ytdlp_trace_sorted_conv)
    then show ?thesis by simp
  qed
  have media_last: "w = last (?s # ytdlp_trace ls ?s)" if "ytdlp_loop ls ?s = Inr w"
    using that by (rule ytdlp_loop_last)
  have "sorted_wrt py_le (progress ?s # map progress (image_trace b cs 0 ?s))"
    by (rule image_trace_sorted) (simp_all add: zero clamp01_Finite)
  then have image: "sorted_wrt py_le (map progress (?s # image_trace b cs 0 ?s))"
    by simp
  have image_last: "w' = last (?s # image_trace b cs 0 ?s)" if "image_loop b cs 0 ?s = Inr w'"
    using that by (rule image_loop_last)
  have resumed: "status (resume_update u) = ''downloading''"
    "progress (resume_update u) = progress u"
    by (simp_all add: resume_update_def)
  from forth conv media_last image image_last resumed show ?thesis
    by (simp only: set_downloading_fields process_line_progress process_line_frame
        image_progress_progress) blast
qed

lemma two_chunks_trace:
  "map progress (image_trace 100 [(40, 1 / 2), (70, 3)] 0 (set_downloading video_task))
     = [Finite 0.4, Finite 1]"
  by (simp add: control_check_def set_downloading_fields video_task_control
      image_progress_def Let_def clamp01_Finite)

theorem C2_progress_within_runs_witness:
  "sorted_wrt py_le (List.map_filter written_progress [audio_stream_line, video_stream_line])
   \<and> control video_task \<noteq> ''pause'' \<and> control video_task \<noteq> ''cancel''
   \<and> sorted_wrt py_le
       (map progress
          (set_downloading video_task
           # ytdlp_trace [audio_stream_line, video_stream_line] (set_downloading video_task)))
   \<and> progress (process_line video_stream_line (set_downloading video_task)) = Finite 0.5
   \<and> map progress (image_trace 100 [(40, 1 / 2), (70, 3)] 0 (set_downloading video_task))
       = [Finite 0.4, Finite 1]
   \<and> sorted_wrt py_le
       (map progress
          (set_downloading video_task
           # image_trace 100 [(40, 1 / 2), (70, 3)] 0 (set_downloading video_task)))"
proof -
  have lines: "sorted_wrt py_le
      (List.map_filter written_progress [audio_stream_line, video_stream_line])"
    by (simp add: List.map_filter_simps stream_lines_written py_le_def)
  have written: "(case written_progress video_stream_line of
      None \<Rightarrow> progress (set_downloading video_task) | Some p \<Rightarrow> p) = Finite 0.5"
    by (simp add: stream_lines_written)
  note run = C2_progress_within_runs [where t = video_task and l = video_stream_line
      and u = "set_downloading video_task"
      and ls = "[audio_stream_line, video_stream_line]"
      and b = 100 and cs = "[(40, 1 / 2), (70, 3)]"]
  have ctl: "control video_task \<noteq> ''pause''" "control video_task \<noteq> ''cancel''"
    by (simp_all add: video_task_control)
  from run lines have media: "sorted_wrt py_le
       (map progress
          (set_downloading video_task
           # ytdlp_trace [audio_stream_line, video_stream_line] (set_downloading video_task)))"
    by blast
  from run have "progress (process_line video_stream_line (set_downloading video_task))
      = (case written_progress video_stream_line of
           None \<Rightarrow> progress (set_downloading video_task) | Some p \<Rightarrow> p)"
    by blast
  with written
  have line: "progress (process_line video_stream_line (set_downloading video_task))
      = Finite 0.5"
    by (simp only:)
  from run have image: "sorted_wrt py_le
       (map progress
          (set_downloading video_task
           # image_trace 100 [(40, 1 / 2), (70, 3)] 0 (set_downloading video_task)))"
    by blast
  from lines ctl media line two_chunks_trace image show ?thesis
    by blast
qed

section \<open>The end of a run of the media worker\<close>

lemma ytdlp_final_result:
  assumes "status t \<noteq> ''paused''" and "status t \<noteq> ''canceled''"
  shows "ytdlp_final n1 n2 t =
     (if py_truthy (filename t)
      then t\<lparr>progress := Finite 1, status := ''completed'', downloaded_at := Some n2,
             download_url := map_option (\<lambda>f. ''/downloads/'' @ f) (filename t)\<rparr>
      else t\<lparr>progress := Finite 1, status := ''error'', downloaded_at := Some n1,
             message := Some ''Download finished but file not found''\<rparr>)"
  using assms
  by (auto simp: ytdlp_final_def Let_def py_truthy_def not_found_message_def split: option.splits)

text \<open>
  A run in which the process starts and the loop reads all the lines without returning
  for a pause or a cancel: what decides its end is whether the task then has a non-empty
  filename, after the fallback search.
\<close>

lemma run_ytdlp_end_of_stream:
  assumes "popen env = Inr lines"
    and "ytdlp_loop lines (set_downloading t) = Inr t1"
  shows "if py_truthy (filename (ytdlp_fallback (glob_result env) t1))
         then status (run_ytdlp env t) = ''completed''
              \<and> downloaded_at (run_ytdlp env t) = Some (now2 env)
              \<and> filename (run_ytdlp env t) = filename (ytdlp_fallback (glob_result env) t1)
              \<and> download_url (run_ytdlp env t)
                  = map_option (\<lambda>f. ''/downloads/'' @ f) (filename (run_ytdlp env t))
              \<and> download_url (run_ytdlp env t) \<noteq> None
         else status (run_ytdlp env t) = ''error''
              \<and> message (run_ytdlp env t) = Some ''Download finished but file not found''
              \<and> status (run_ytdlp env t) \<noteq> ''completed''"
proof -
  let ?u = "ytdlp_fallback (glob_result env) t1"
  from assms(2) have "status t1 = ''downloading''"
    by (simp add: ytdlp_loop_status set_downloading_def)
  then have st: "status ?u \<noteq> ''paused''" "status ?u \<noteq> ''canceled''"
    by (simp_all add: ytdlp_fallback_status)
  from assms have run: "run_ytdlp env t = ytdlp_final (now1 env) (now2 env) ?u"
    by (simp add: run_ytdlp_def)
  show ?thesis
    unfolding run ytdlp_final_result [OF st]
    by (auto simp: py_truthy_def split: option.splits)
qed

lemma progress_line_keeps_filename: "filename (process_line progress_line t) = filename t"
  by (simp add: process_line_def progress_line_shape parse_progress_def progress_line_fields
      parse_speed_def parse_eta_def)

lemma named_run_loop:
  "ytdlp_loop [destination_line, progress_line] (set_downloading video_task)
     = Inr (process_line progress_line destination_state)"
  by (simp add: control_check_def process_line_frame video_task_control
      set_downloading_fields destination_state_def)

lemma unnamed_run_loop:
  "ytdlp_loop [progress_line] (set_downloading video_task) = Inr progress_state"
  by (simp add: control_check_def process_line_frame video_task_control
      set_downloading_fields progress_state_def)

lemma named_run_filename:
  "filename (ytdlp_fallback (glob_result named_run) (process_line progress_line destination_state))
     = Some ''My Video.mp4''"
  by (simp add: ytdlp_fallback_def named_run_def progress_line_keeps_filename
      destination_state_fields py_truthy_def)

lemma unnamed_run_filename:
  "filename (ytdlp_fallback (glob_result unnamed_run) progress_state) = None"
  by (simp add: ytdlp_fallback_def unnamed_run_def progress_state_def
      progress_line_keeps_filename set_downloading_def video_task_def Task_init_def)

lemma found_run_filename:
  "filename (ytdlp_fallback (glob_result found_run) progress_state) = Some ''t1.f137.mp4''"
proof -
  have "sort [''/app/downloads/t1.mp4'', ''/app/downloads/t1.f137.mp4'']
          = [''/app/downloads/t1.f137.mp4'', ''/app/downloads/t1.mp4'']"
    by code_simp
  moreover have "basename ''/app/downloads/t1.f137.mp4'' = ''t1.f137.mp4''"
    by code_simp
  moreover have "filename progress_state = None"
    by (simp add: progress_state_def progress_line_keeps_filename set_downloading_def
        video_task_def Task_init_def)
  ultimately show ?thesis
    by (simp add: ytdlp_fallback_def found_run_def py_truthy_def)
qed

text \<open>
  On a task that starts without a filename: a run whose output names the file ends
  completed, one that names none and finds none ends in error, and one that names none
  but finds files of the task id ends completed with the first of them.
\<close>

lemma fresh_runs_end:
  "status (run_ytdlp named_run video_task) = ''completed''
   \<and> downloaded_at (run_ytdlp named_run video_task) = Some ''2024-05-01 10:00:01''
   \<and> download_url (run_ytdlp named_run video_task) = Some ''/downloads/My Video.mp4''
   \<and> status (run_ytdlp unnamed_run video_task) = ''error''
   \<and> message (run_ytdlp unnamed_run video_task) = Some ''Download finished but file not found''
   \<and> status (run_ytdlp found_run video_task) = ''completed''
   \<and> download_url (run_ytdlp found_run video_task) = Some ''/downloads/t1.f137.mp4''"
proof -
  have "popen named_run = Inr [destination_line, progress_line]"
    by (simp add: named_run_def)
  from run_ytdlp_end_of_stream [OF this named_run_loop]
  have named: "status (run_ytdlp named_run video_task) = ''completed''
      \<and> downloaded_at (run_ytdlp named_run video_task) = Some (now2 named_run)
      \<and> download_url (run_ytdlp named_run video_task) = Some ''/downloads/My Video.mp4''"
    by (simp add: named_run_filename py_truthy_def)
  have "popen unnamed_run = Inr [progress_line]"
    by (simp add: unnamed_run_def)
  from run_ytdlp_end_of_stream [OF this unnamed_run_loop]
  have unnamed: "status (run_ytdlp unnamed_run video_task) = ''error''
      \<and> message (run_ytdlp unnamed_run video_task) = Some ''Download finished but file not found''"
    by (simp add: unnamed_run_filename py_truthy_def)
  have "popen found_run = Inr [progress_line]"
    by (simp add: found_run_def)
  from run_ytdlp_end_of_stream [OF this unnamed_run_loop]
  have "status (run_ytdlp found_run video_task) = ''completed''
      \<and> download_url (run_ytdlp found_run video_task) = Some ''/downloads/t1.f137.mp4''"
    by (simp add: found_run_filename py_truthy_def)
  with named unnamed show ?thesis by (simp add: named_run_def)
qed

lemma error_line_shape:
  "py_strip error_line = error_line"
  "\<not> startswith error_line ''[download]''"
  "\<not> py_in ''Destination:'' error_line"
  "\<not> py_in merging_marker error_line"
  by code_simp+

lemma error_line_ignored: "process_line error_line t = t"
  by (simp add: process_line_def error_line_shape)

lemma paused_first_run:
  "run_ytdlp first_run (pause_update video_task)
     = (process_line destination_line (set_downloading (pause_update video_task)))
         \<lparr>status := ''paused''\<rparr>"
  by (simp add: run_ytdlp_def first_run_def control_check_def process_line_frame
      set_downloading_fields pause_update_def)

lemma stale_task_fields:
  "status stale_task = ''downloading''"
  "control stale_task = []"
  "filename stale_task = Some ''My Video.mp4''"
  "message stale_task = None"
  unfolding stale_task_def paused_first_run
  by (simp_all add: resume_update_def process_line_def
      destination_line_shape set_filename_def set_downloading_def pause_update_def
      video_task_def Task_init_def del: One_nat_def)

lemma stale_task_reachable: "reachable stale_task"
proof -
  have "reachable (pause_update video_task)"
    by (rule reachable.step [OF _ task_step.pause]) (simp add: video_task_def reachable.created)
  with run_ytdlp_steps have "reachable (run_ytdlp first_run (pause_update video_task))"
    by (rule reachable_steps)
  then show ?thesis
    unfolding stale_task_def by (rule reachable.step) (rule task_step.resume)
qed

lemma failed_run_loop:
  "control t = [] \<Longrightarrow> ytdlp_loop [error_line] (set_downloading t) = Inr (set_downloading t)"
  by (simp add: error_line_ignored control_check_def set_downloading_fields)

text \<open>
  Claim C5 says of a run of the media worker whose stream is exhausted with no pause or
  cancel: if a filename was resolved, by a line or by the fallback search for a file of
  the task id, the task ends \<^verbatim>\<open>completed\<close> with the completion time and the download
  URL, and otherwise it ends in \<^verbatim>\<open>error\<close> with the message
  \<^verbatim>\<open>Download finished but file not found\<close>. The source decides by the truth value
  of \<^verbatim>\<open>task.filename\<close> alone, and a launch resets the status and the progress only.
  So it does what the claim says for a task that starts without a filename
  (\<open>fresh_runs_end\<close>), and not for a relaunched one: a task that was paused after its
  destination line and then resumed, and whose second run prints one error line,
  resolves no name and finds no file, ends \<^verbatim>\<open>completed\<close> with the download URL of the
  old name and without a message. The same run on the task as it was created ends in
  \<^verbatim>\<open>error\<close>.
\<close>

theorem C5_stale_filename_completed:
  "reachable stale_task
   \<and> status stale_task = ''downloading''
   \<and> filename stale_task = Some ''My Video.mp4''
   \<and> popen failed_run = Inr [error_line]
   \<and> glob_result failed_run = []
   \<and> ytdlp_loop [error_line] (set_downloading stale_task) = Inr (set_downloading stale_task)
   \<and> status (run_ytdlp failed_run stale_task) = ''completed''
   \<and> download_url (run_ytdlp failed_run stale_task) = Some ''/downloads/My Video.mp4''
   \<and> message (run_ytdlp failed_run stale_task) = None
   \<and> status (run_ytdlp failed_run video_task) = ''error''
   \<and> message (run_ytdlp failed_run video_task) = Some ''Download finished but file not found''"
proof -
  have env: "popen failed_run = Inr [error_line]" "glob_result failed_run = []"
    by (simp_all add: failed_run_def)
  have stale_loop: "ytdlp_loop [error_line] (set_downloading stale_task)
      = Inr (set_downloading stale_task)"
    by (rule failed_run_loop) (rule stale_task_fields)
  have fresh_loop: "ytdlp_loop [error_line] (set_downloading video_task)
      = Inr (set_downloading video_task)"
    by (rule failed_run_loop) (rule video_task_control)
  have stale_name: "filename (ytdlp_fallback [] (set_downloading stale_task))
      = Some ''My Video.mp4''"
    by (simp add: ytdlp_fallback_def set_downloading_def stale_task_fields py_truthy_def)
  have fresh_name: "filename (ytdlp_fallback [] (set_downloading video_task)) = None"
    by (simp add: ytdlp_fallback_def set_downloading_def video_task_def Task_init_def)
  from run_ytdlp_end_of_stream [OF env(1) stale_loop]
  have stale: "status (run_ytdlp failed_run stale_task) = ''completed''
      \<and> download_url (run_ytdlp failed_run stale_task) = Some ''/downloads/My Video.mp4''"
    by (simp add: env stale_name py_truthy_def)
  have "run_ytdlp failed_run stale_task
      = ytdlp_final (now1 failed_run) (now2 failed_run)
          (ytdlp_fallback [] (set_downloading stale_task))"
    by (simp only: run_ytdlp_def env sum.case stale_loop)
  moreover have "message (ytdlp_final n1 n2 (ytdlp_fallback [] (set_downloading stale_task)))
      = None" for n1 n2
    by (simp add: ytdlp_final_result ytdlp_fallback_status set_downloading_fields stale_name
        py_truthy_def)
       (simp add: ytdlp_fallback_def set_downloading_def stale_task_fields py_truthy_def)
  ultimately have no_message: "message (run_ytdlp failed_run stale_task) = None"
    by simp
  from run_ytdlp_end_of_stream [OF env(1) fresh_loop]
  have fresh: "status (run_ytdlp failed_run video_task) = ''error''
      \<and> message (run_ytdlp failed_run video_task)
          = Some ''Download finished but file not found''"
    by (simp add: env fresh_name py_truthy_def)
  from stale_task_reachable stale_task_fields(1,3) env stale_loop stale no_message fresh
  show ?thesis by blast
qed

section \<open>The endpoints\<close>

lemma too_many_message_names_cap: "py_in ''(max 20)'' too_many_message"
  by code_simp

text \<open>
  Claim C6. When twenty tasks (or more) of the registry are \<^verbatim>\<open>pending\<close> or
  \<^verbatim>\<open>downloading\<close>, a start request raises the HTTP error 429 whose message names the
  cap of 20, creates no task and leaves the registry, and so its size, as it was.
\<close>

theorem C6_rate_limited:
  assumes "20 \<le> length (active_tasks m)"
  shows "start_download new_id fetched_title req m = (Inl (HTTPException 429 too_many_message), m)
         \<and> py_in ''(max 20)'' too_many_message
         \<and> length (snd (start_download new_id fetched_title req m)) = length m"
  using assms by (simp add: start_download_def MAX_TASKS_def too_many_message_names_cap)

lemma twenty_tasks_active:
  "length (active_tasks twenty_tasks) = 20"
  "length twenty_tasks = 20"
  by code_simp+

theorem C6_rate_limited_witness:
  "length (active_tasks twenty_tasks) = 20
   \<and> start_download ''new'' None video_request twenty_tasks
       = (Inl (HTTPException 429 too_many_message), twenty_tasks)
   \<and> length (snd (start_download ''new'' None video_request twenty_tasks)) = 20"
  using C6_rate_limited [of twenty_tasks "''new''" None video_request]
  by (simp add: twenty_tasks_active)

lemma cancel_task_present:
  assumes "map_of m i = Some t"
  shows "fst (cancel_task i m) = Inr (to_status (cancel_update t))"
    and "map_of (snd (cancel_task i m)) i = Some (cancel_update t)"
  using assms by (simp_all add: cancel_task_def update_conv')

lemma cancel_update_status: "ts_status (to_status (cancel_update t)) = ''canceled''"
  by (simp add: to_status_def cancel_update_def)

text \<open>
  Claim C7. For a task id that is in the registry, two cancel requests in succession
  both answer with the status \<^verbatim>\<open>canceled\<close>; the second raises no error, and the task
  is then still in the registry with that status.
\<close>

theorem C7_cancel_twice:
  assumes "map_of m i \<noteq> None"
  shows "response_status (fst (cancel_task i m)) = Some ''canceled''
         \<and> response_status (fst (cancel_task i (snd (cancel_task i m)))) = Some ''canceled''
         \<and> map_option status (map_of (snd (cancel_task i (snd (cancel_task i m)))) i)
             = Some ''canceled''"
proof -
  from assms obtain t where t: "map_of m i = Some t" by auto
  let ?m1 = "snd (cancel_task i m)"
  have first: "fst (cancel_task i m) = Inr (to_status (cancel_update t))"
    and m1: "map_of ?m1 i = Some (cancel_update t)"
    using t by (rule cancel_task_present)+
  have second: "fst (cancel_task i ?m1) = Inr (to_status (cancel_update (cancel_update t)))"
    and m2: "map_of (snd (cancel_task i ?m1)) i = Some (cancel_update (cancel_update t))"
    using m1 by (rule cancel_task_present)+
  show ?thesis
    by (simp add: first second m2 response_status_def cancel_update_status)
       (simp add: cancel_update_def)
qed

theorem C7_cancel_twice_witness:
  "map_of [(''t1'', video_task)] ''t1'' \<noteq> None
   \<and> response_status (fst (cancel_task ''t1'' [(''t1'', video_task)])) = Some ''canceled''
   \<and> response_status
        (fst (cancel_task ''t1'' (snd (cancel_task ''t1'' [(''t1'', video_task)]))))
      = Some ''canceled''"
  using C7_cancel_twice [of "[(''t1'', video_task)]" "''t1''"] by simp

lemma resume_task_present:
  assumes "map_of m i = Some t"
  shows "fst (resume_task i m) = Inr (to_status (resume_update t))"
    and "map_of (snd (resume_task i m)) i = Some (resume_update t)"
  using assms by (simp_all add: resume_task_def update_conv')

text \<open>
  Claim C10. Let the category of a task of the registry be none of \<^verbatim>\<open>video\<close>,
  \<^verbatim>\<open>audio\<close> and \<^verbatim>\<open>image\<close>. The resume request answers with the status
  \<^verbatim>\<open>downloading\<close> and stores the task with that status, and the worker thread it starts
  returns the task as it got it: no field changes, the message included, so the status
  stays \<^verbatim>\<open>downloading\<close>. The worker thread of a start request instead marks
  such a task as \<^verbatim>\<open>error\<close> with the message \<^verbatim>\<open>Unsupported category\<close>.
\<close>

theorem C10_resume_unsupported_category:
  assumes "map_of m i = Some t"
    and "category t \<noteq> ''video''" and "category t \<noteq> ''audio''" and "category t \<noteq> ''image''"
  shows "response_status (fst (resume_task i m)) = Some ''downloading''
         \<and> map_of (snd (resume_task i m)) i = Some (resume_update t)
         \<and> status (resume_update t) = ''downloading''
         \<and> message (resume_update t) = message t
         \<and> resume_runner yenv ienv (resume_update t) = resume_update t
         \<and> start_runner yenv ienv t
             = t\<lparr>status := ''error'', message := Some ''Unsupported category''\<rparr>"
  using assms
  by (simp add: resume_task_present response_status_def to_status_def resume_update_def
      resume_runner_def start_runner_def)

lemma document_task_category:
  "category document_task = ''document''"
  "message document_task = None"
  by (simp_all add: document_task_def Task_init_def video_request_def)

theorem C10_resume_unsupported_category_witness:
  "map_of [(''t3'', document_task)] ''t3'' = Some document_task
   \<and> category document_task = ''document''
   \<and> status (resume_update document_task) = ''downloading''
   \<and> message (resume_update document_task) = None
   \<and> resume_runner named_run idle_image (resume_update document_task)
       = resume_update document_task
   \<and> status (start_runner named_run idle_image document_task) = ''error''
   \<and> message (start_runner named_run idle_image document_task) = Some ''Unsupported category''"
proof -
  have "map_of [(''t3'', document_task)] ''t3'' = Some document_task" by simp
  from C10_resume_unsupported_category [OF this, of named_run idle_image]
  show ?thesis by (simp add: document_task_category)
qed

section \<open>The cleanup sweep\<close>

lemma cleanup_task_at:
  "cleanup_task d now rf fs t p =
     (if swept_path d t = Some p \<and> (\<exists>mt. fs p = Some mt \<and> 600 < now - mt) \<and> \<not> rf p
      then None else fs p)"
proof (cases "swept_path d t")
  case None
  then have "\<not> ((status t = ''completed'' \<or> status t = ''canceled'') \<and> py_truthy (filename t))"
    by (cases "filename t") (simp_all add: swept_path_def py_truthy_def split: if_splits)
  then have "cleanup_task d now rf fs t = fs"
    unfolding cleanup_task_def by (simp only: if_False)
  with None show ?thesis by simp
next
  case (Some q)
  then obtain f where f: "filename t = Some f" and q: "q = path_join d f"
    and st: "(status t = ''completed'' \<or> status t = ''canceled'') \<and> py_truthy (filename t)"
    by (cases "filename t") (simp_all add: swept_path_def split: if_splits)
  let ?q = "path_join d f"
  have task: "cleanup_task d now rf fs t =
      (case fs ?q of None \<Rightarrow> fs
       | Some mtime \<Rightarrow> if now - mtime > 600 then (if rf ?q then fs else fs (?q := None)) else fs)"
    using st by (simp add: cleanup_task_def f)
  show ?thesis
  proof (cases "?q = p")
    case True
    then show ?thesis by (cases "fs p") (simp_all add: task Some q)
  next
    case False
    then show ?thesis by (cases "fs ?q") (simp_all add: task Some q)
  qed
qed

lemma cleanup_pass_at:
  "cleanup_pass d now rf m fs p =
     (if (\<exists>(i, t) \<in> set m. swept_path d t = Some p)
         \<and> (\<exists>mt. fs p = Some mt \<and> 600 < now - mt) \<and> \<not> rf p
      then None else fs p)"
proof (induction m arbitrary: fs)
  case Nil
  show ?case by (simp add: cleanup_pass_def)
next
  case (Cons it m)
  obtain i t where it: "it = (i, t)" by (cases it)
  define aged where "aged g \<longleftrightarrow> (\<exists>mt. g p = Some mt \<and> 600 < now - mt)" for g :: filesystem
  define later where "later \<longleftrightarrow> (\<exists>(i, t) \<in> set m. swept_path d t = Some p)"
  define here where "here \<longleftrightarrow> swept_path d t = Some p"
  let ?fs' = "cleanup_task d now rf fs t"
  have task: "?fs' p = (if here \<and> aged fs \<and> \<not> rf p then None else fs p)"
    unfolding here_def aged_def by (rule cleanup_task_at)
  have "cleanup_pass d now rf (it # m) fs p = cleanup_pass d now rf m ?fs' p"
    by (simp add: cleanup_pass_def it)
  also have "\<dots> = (if later \<and> aged ?fs' \<and> \<not> rf p then None else ?fs' p)"
    unfolding later_def aged_def by (rule Cons.IH)
  also have "\<dots> = (if (here \<or> later) \<and> aged fs \<and> \<not> rf p then None else fs p)"
  proof (cases "here \<and> aged fs \<and> \<not> rf p")
    case True
    then have "?fs' p = None" by (simp add: task)
    then have "\<not> aged ?fs'" by (simp add: aged_def)
    with True \<open>?fs' p = None\<close> show ?thesis by simp
  next
    case False
    then have same: "?fs' p = fs p" unfolding task by (simp only: if_False)
    then have "aged ?fs' = aged fs" by (simp add: aged_def)
    with False same show ?thesis by auto
  qed
  finally have result: "cleanup_pass d now rf (it # m) fs p
      = (if (here \<or> later) \<and> aged fs \<and> \<not> rf p then None else fs p)" .
  have ex: "(\<exists>(i, t) \<in> set (it # m). swept_path d t = Some p) = (here \<or> later)"
    by (simp add: here_def later_def it)
  show ?case unfolding ex by (simp add: result aged_def)
qed

text \<open>
  Claim C8. Let a task of the registry be \<^verbatim>\<open>completed\<close> or \<^verbatim>\<open>canceled\<close> with a
  non-empty filename whose file exists in the download directory. After one pass of the
  sweep the file is gone exactly when its modification time lies more than 600 seconds
  before the time of the pass and the removal did not raise; otherwise it is there with
  its modification time. So a file 601 seconds old is removed and one 599 seconds old
  is not.
\<close>

theorem C8_sweep_threshold:
  assumes "(i, t) \<in> set m"
    and "status t = ''completed'' \<or> status t = ''canceled''"
    and "filename t = Some f" and "f \<noteq> []"
    and "fs (path_join d f) = Some mtime"
  shows "cleanup_pass d now remove_fails m fs (path_join d f)
           = (if 600 < now - mtime \<and> \<not> remove_fails (path_join d f) then None else Some mtime)"
proof -
  from assms(2-4) have "swept_path d t = Some (path_join d f)"
    by (simp add: swept_path_def py_truthy_def)
  with assms(1) have "\<exists>(i, t) \<in> set m. swept_path d t = Some (path_join d f)"
    by auto
  with assms(5) show ?thesis by (simp add: cleanup_pass_at)
qed

lemma swept_paths:
  "path_join ''/app/downloads'' ''old.mp4'' = ''/app/downloads/old.mp4''"
  "path_join ''/app/downloads'' ''new.mp4'' = ''/app/downloads/new.mp4''"
  by (simp_all add: path_join_def startswith_def)

theorem C8_sweep_threshold_witness:
  "swept_files ''/app/downloads/old.mp4'' = Some (10000 - 601)
   \<and> swept_files ''/app/downloads/new.mp4'' = Some (10000 - 599)
   \<and> cleanup_pass ''/app/downloads'' 10000 (\<lambda>p. False) swept_tasks swept_files
       ''/app/downloads/old.mp4'' = None
   \<and> cleanup_pass ''/app/downloads'' 10000 (\<lambda>p. False) swept_tasks swept_files
       ''/app/downloads/new.mp4'' = Some 9401"
proof -
  let ?t1 = "video_task\<lparr>status := ''completed'', filename := Some ''old.mp4''\<rparr>"
  let ?t2 = "(Task_init ''t2'' video_request)\<lparr>status := ''canceled'', filename := Some ''new.mp4''\<rparr>"
  have old: "swept_files (path_join ''/app/downloads'' ''old.mp4'') = Some 9399"
    and new: "swept_files (path_join ''/app/downloads'' ''new.mp4'') = Some 9401"
    by (simp_all add: swept_files_def swept_paths)
  have in1: "(''t1'', ?t1) \<in> set swept_tasks" and in2: "(''t2'', ?t2) \<in> set swept_tasks"
    by (simp_all add: swept_tasks_def)
  have r1: "cleanup_pass ''/app/downloads'' 10000 (\<lambda>p. False) swept_tasks swept_files
       (path_join ''/app/downloads'' ''old.mp4'') = None"
    using C8_sweep_threshold [where i = "''t1''" and t = ?t1 and m = swept_tasks
        and f = "''old.mp4''" and fs = swept_files and d = "''/app/downloads''"
        and mtime = 9399 and now = 10000 and remove_fails = "\<lambda>p. False", OF in1 _ _ _ old]
    by simp
  have r2: "cleanup_pass ''/app/downloads'' 10000 (\<lambda>p. False) swept_tasks swept_files
       (path_join ''/app/downloads'' ''new.mp4'') = Some 9401"
    using C8_sweep_threshold [where i = "''t2''" and t = ?t2 and m = swept_tasks
        and f = "''new.mp4''" and fs = swept_files and d = "''/app/downloads''"
        and mtime = 9401 and now = 10000 and remove_fails = "\<lambda>p. False", OF in2 _ _ _ new]
    by simp
  from r1 r2 old new show ?thesis by (simp add: swept_paths)
qed

end
